theory Spec2Isabelle
  imports Complex_Main "HOL-Library.Sublist" "HOL-Library.Multiset"
begin

section \<open>Strings of the JavaScript runtime\<close>

text \<open>
  A JavaScript string is a sequence of code units. The model is \<open>string\<close>, one \<open>char\<close>
  per code unit, which covers the strings whose code units lie in U+0000 .. U+00FF; the
  non-breaking space U+00A0 is \<open>CHR 0xA0\<close>. The operations below follow
  ECMA-262 for the calls that \<^verbatim>\<open>utils.ts\<close> and \<^verbatim>\<open>tagIt.ts\<close> make. An index result of
  \<^verbatim>\<open>-1\<close> is \<open>None\<close>, an index \<open>i\<close> is \<open>Some i\<close>.
\<close>

text \<open>\<^verbatim>\<open>s.startsWith(t)\<close>\<close>

definition startsWith :: "'a list \<Rightarrow> 'a list \<Rightarrow> bool" where
  "startsWith s t \<longleftrightarrow> take (length t) s = t"

text \<open>
  \<^verbatim>\<open>s.substring(a, b)\<close>: both arguments are clamped to the length, and swapped when the
  first is the larger one. \<^verbatim>\<open>s.substring(a)\<close> is \<open>drop a s\<close>.
\<close>

definition substring :: "'a list \<Rightarrow> nat \<Rightarrow> nat \<Rightarrow> 'a list" where
  "substring s a b =
     (let a' = min a (length s); b' = min b (length s);
          from = min a' b'; to = max a' b'
      in take (to - from) (drop from s))"

text \<open>\<^verbatim>\<open>s.indexOf(t)\<close>: the least index at which \<open>t\<close> occurs in \<open>s\<close>.\<close>

fun indexOf :: "'a list \<Rightarrow> 'a list \<Rightarrow> nat option" where
  "indexOf [] t = (if t = [] then Some 0 else None)"
| "indexOf (c # cs) t =
     (if startsWith (c # cs) t then Some 0 else map_option Suc (indexOf cs t))"

text \<open>
  \<^verbatim>\<open>s.lastIndexOf(t, pos)\<close>: the greatest index \<open>k\<close>, not larger than \<open>pos\<close> clamped to
  the length of \<open>s\<close>, at which \<open>t\<close> occurs in \<open>s\<close>. An occurrence that starts at \<open>pos\<close>
  itself counts.
\<close>

fun lastIndexOfUpTo :: "'a list \<Rightarrow> 'a list \<Rightarrow> nat \<Rightarrow> nat option" where
  "lastIndexOfUpTo s t 0 = (if startsWith s t then Some 0 else None)"
| "lastIndexOfUpTo s t (Suc k) =
     (if startsWith (drop (Suc k) s) t then Some (Suc k) else lastIndexOfUpTo s t k)"

definition lastIndexOf :: "'a list \<Rightarrow> 'a list \<Rightarrow> nat \<Rightarrow> nat option" where
  "lastIndexOf s t pos = lastIndexOfUpTo s t (min pos (length s))"

text \<open>
  \<^verbatim>\<open>s.toLowerCase()\<close>. In the range U+0000 .. U+00FF the letters with a lower-case
  form are A .. Z, U+00C0 .. U+00D6 and U+00D8 .. U+00DE; each is mapped to the code unit
  32 places up, every other code unit is left as it is.
\<close>

definition toLowerUnit :: "char \<Rightarrow> char" where
  "toLowerUnit c =
     (let n = (of_char c :: nat)
      in if (65 \<le> n \<and> n \<le> 90) \<or> (192 \<le> n \<and> n \<le> 214) \<or> (216 \<le> n \<and> n \<le> 222)
         then char_of (n + 32) else c)"

definition toLowerCase :: "string \<Rightarrow> string" where
  "toLowerCase s = map toLowerUnit s"

text \<open>\<^verbatim>\<open>s.replace(re, " ")\<close>, where \<^verbatim>\<open>re\<close> matches every code unit U+00A0.\<close>

definition replaceNbsp :: "string \<Rightarrow> string" where
  "replaceNbsp s = map (\<lambda>c. if c = CHR 0xA0 then CHR '' '' else c) s"

text \<open>
  \<^verbatim>\<open>s.split(" ")\<close>, for a separator of one code unit: the pieces between the
  separators, in order. The result is never empty; the empty string gives one empty
  piece.
\<close>

fun split :: "'a list \<Rightarrow> 'a \<Rightarrow> 'a list list" where
  "split [] sep = [[]]"
| "split (c # cs) sep =
     (if c = sep then [] # split cs sep
      else (case split cs sep of [] \<Rightarrow> [[c]] | p # ps \<Rightarrow> (c # p) # ps))"

text \<open>
  \<^verbatim>\<open>xs.slice(0, e)\<close> on an array: a negative \<open>e\<close> counts from the end of the array.
\<close>

definition slice0 :: "'a list \<Rightarrow> int \<Rightarrow> 'a list" where
  "slice0 xs e =
     (let len = int (length xs);
          final = (if e < 0 then max (len + e) 0 else min e len)
      in take (nat final) xs)"

section \<open>Scoring engine (\<^verbatim>\<open>utils.ts\<close>)\<close>

text \<open>
  A \<^verbatim>\<open>number\<close> is modelled as a real. The field \<^verbatim>\<open>matchScore?: number\<close> is optional:
  \<open>None\<close> is an object without the field.
\<close>

record SuggestionItem =
  display :: string
  key :: string
  matchScore :: "real option"

definition getMatchScore :: "string \<Rightarrow> string \<Rightarrow> real" where
  "getMatchScore suggestionKey query =
     (let key = toLowerCase suggestionKey;
          q = toLowerCase query
      in if q = [] then 0
         else if key = q then 1
         else (case indexOf key q of
                 None \<Rightarrow> 0
               | Some index \<Rightarrow>
                   (let score = 1 - real index / real (length key)
                    in max 0 (min 1 score))))"

text \<open>
  \<^verbatim>\<open>suggestion.matchScore! >= minScore\<close>: a missing score is \<^verbatim>\<open>undefined\<close>, and the
  comparison of \<^verbatim>\<open>undefined\<close> with a number is false.
\<close>

definition scoreAtLeast :: "real \<Rightarrow> SuggestionItem \<Rightarrow> bool" where
  "scoreAtLeast minScore suggestion =
     (case matchScore suggestion of None \<Rightarrow> False | Some x \<Rightarrow> x \<ge> minScore)"

text \<open>
  The key of \<^verbatim>\<open>filtered.sort((a, b) => b.matchScore! - a.matchScore!)\<close>. The sort runs on
  the filtered array, where every element has a score; the value for a missing score is
  never used.
\<close>

definition sortKey :: "SuggestionItem \<Rightarrow> real" where
  "sortKey suggestion = (case matchScore suggestion of None \<Rightarrow> 0 | Some x \<Rightarrow> - x)"

text \<open>
  \<^verbatim>\<open>sortAndFilterSuggestions\<close> writes the score into the objects of the array it is
  given, and returns an array. The model returns both: first the content of the input
  array after the call, then the array returned. \<^verbatim>\<open>Array.prototype.sort\<close> is stable, as
  \<open>sort_key\<close> is.
\<close>

definition sortAndFilterSuggestions ::
  "SuggestionItem list \<Rightarrow> string \<Rightarrow> real \<Rightarrow> SuggestionItem list \<times> SuggestionItem list" where
  "sortAndFilterSuggestions suggestions query minScore =
     (if query = [] then (suggestions, suggestions)
      else
        (let scored = map (\<lambda>suggestion.
                suggestion\<lparr>matchScore := Some (getMatchScore (key suggestion) query)\<rparr>) suggestions;
             filtered = filter (scoreAtLeast minScore) scored
         in (scored, sort_key sortKey filtered)))"

text \<open>
  Candidates are objects, and the scoring engine writes into them. Objects live in a
  store, addressed by references. An element of a working list is either an object of
  the store, which the candidate set of an instance may hold as well, or an object that a
  middleware made, which nothing else refers to and which is given by its content.
\<close>

type_synonym objRef = nat

datatype candidate = Stored objRef | Fresh SuggestionItem

definition valueOf :: "(objRef \<Rightarrow> SuggestionItem) \<Rightarrow> candidate \<Rightarrow> SuggestionItem" where
  "valueOf store c = (case c of Stored r \<Rightarrow> store r | Fresh v \<Rightarrow> v)"

text \<open>
  \<^verbatim>\<open>sortAndFilterSuggestions\<close> once more, on a working list of such elements: it returns
  the store after the call and the array returned. The score is written into every
  object of the working list, so into every object of the store that the list refers to.
\<close>

definition sortAndFilterSuggestionsOn ::
  "(objRef \<Rightarrow> SuggestionItem) \<Rightarrow> candidate list \<Rightarrow> string \<Rightarrow> real
     \<Rightarrow> (objRef \<Rightarrow> SuggestionItem) \<times> candidate list" where
  "sortAndFilterSuggestionsOn store suggestions query minScore =
     (if query = [] then (store, suggestions)
      else
        (let scoredStore = (\<lambda>r. if Stored r \<in> set suggestions
                then (store r)\<lparr>matchScore := Some (getMatchScore (key (store r)) query)\<rparr>
                else store r);
             scored = map (\<lambda>c. case c of
                  Stored r \<Rightarrow> Stored r
                | Fresh v \<Rightarrow> Fresh (v\<lparr>matchScore := Some (getMatchScore (key v) query)\<rparr>))
                suggestions;
             filtered = filter (\<lambda>c. scoreAtLeast minScore (valueOf scoredStore c)) scored
         in (scoredStore, sort_key (\<lambda>c. sortKey (valueOf scoredStore c)) filtered)))"

section \<open>The page: text controls, DOM nodes, the selection\<close>

text \<open>
  The text controls with a selection: an \<^verbatim>\<open>HTMLTextAreaElement\<close>, an
  \<^verbatim>\<open>HTMLInputElement\<close> of type text, search, tel or password, and one of type url. A
  control does not store every string it is given (HTML standard, value sanitization):
  a textarea replaces every pair CR LF and every other CR by LF; an input of the first
  four types removes every CR and LF; an input of type url removes them and then the
  ASCII whitespace at both ends.
\<close>

datatype controlKind = TextAreaControl | TextInput | UrlInput

fun normalizeNewlines :: "string \<Rightarrow> string" where
  "normalizeNewlines [] = []"
| "normalizeNewlines (c # cs) =
     (if c = CHR 0x0D
      then (if startsWith cs [CHR 0x0A] then normalizeNewlines cs
            else CHR 0x0A # normalizeNewlines cs)
      else c # normalizeNewlines cs)"

definition stripNewlines :: "string \<Rightarrow> string" where
  "stripNewlines s = filter (\<lambda>c. c \<noteq> CHR 0x0A \<and> c \<noteq> CHR 0x0D) s"

definition isAsciiWhitespace :: "char \<Rightarrow> bool" where
  "isAsciiWhitespace c \<longleftrightarrow>
     c = CHR 0x09 \<or> c = CHR 0x0A \<or> c = CHR 0x0C \<or> c = CHR 0x0D \<or> c = CHR '' ''"

definition stripWhitespace :: "string \<Rightarrow> string" where
  "stripWhitespace s =
     rev (dropWhile isAsciiWhitespace (rev (dropWhile isAsciiWhitespace s)))"

fun sanitize :: "controlKind \<Rightarrow> string \<Rightarrow> string" where
  "sanitize TextAreaControl s = normalizeNewlines s"
| "sanitize TextInput s = stripNewlines s"
| "sanitize UrlInput s = stripWhitespace (stripNewlines s)"

text \<open>
  The state of a control: its kind, its text and its selection offsets. The field
  \<open>inputValue\<close> is the property \<^verbatim>\<open>value\<close> of the element.
\<close>

record textarea =
  control :: controlKind
  inputValue :: string
  selectionStart :: nat
  selectionEnd :: nat

text \<open>
  The assignment \<^verbatim>\<open>textarea.value = v\<close>: the control stores the sanitised string, and
  when that differs from the text it had, the caret moves to its end.
\<close>

definition setValue :: "string \<Rightarrow> textarea \<Rightarrow> textarea" where
  "setValue v ta =
     (let stored = sanitize (control ta) v
      in if stored = inputValue ta then ta
         else ta\<lparr>inputValue := stored,
                 selectionStart := length stored,
                 selectionEnd := length stored\<rparr>)"

text \<open>\<^verbatim>\<open>textarea.setSelectionRange(a, b)\<close>: offsets beyond the text are set to its length.\<close>

definition setSelectionRange :: "nat \<Rightarrow> nat \<Rightarrow> textarea \<Rightarrow> textarea" where
  "setSelectionRange a b ta =
     ta\<lparr>selectionStart := min a (length (inputValue ta)),
        selectionEnd := min b (length (inputValue ta))\<rparr>"

text \<open>
  DOM nodes live in a store, addressed by references. A range is a collapsed caret
  position: a container node and an offset in it. \<^verbatim>\<open>window.getSelection()\<close> is \<open>None\<close>
  when it returns \<^verbatim>\<open>null\<close>, otherwise the list of its ranges (\<^verbatim>\<open>rangeCount\<close> is the
  length, \<^verbatim>\<open>getRangeAt(0)\<close> the head).
\<close>

type_synonym ref = nat

datatype nodeKind = TEXT_NODE | ELEMENT_NODE

record domNode =
  nodeType :: nodeKind
  textContent :: "string option"
  parentNode :: "ref option"
  childNodes :: "ref list"

record domRange =
  startContainer :: ref
  startOffset :: nat

datatype error = Thrown string | NotFoundError | InvalidNodeTypeError

section \<open>The controller (\<^verbatim>\<open>tagIt.ts\<close>)\<close>

datatype displayStyle = DisplayNone | DisplayBlock

text \<open>
  The dropdown \<^verbatim>\<open>ul\<close> element: the three style properties the controller sets, and
  the text of its \<^verbatim>\<open>li\<close> children in order.
\<close>

record dropdownEl =
  styleDisplay :: displayStyle
  styleTop :: real
  styleLeft :: real
  items :: "string list"

record Coordinates =
  top_px :: real
  left_px :: real

datatype target = InputTarget textarea | EditableTarget

text \<open>
  A middleware is a function from a candidate list to a candidate list that may throw:
  \<open>Inl\<close> is the exception, \<open>Inr\<close> the list returned. It reads the objects of the list in
  the store, which is its first argument here, and writes into none of them.
\<close>

type_synonym SuggestionMiddleware =
  "(objRef \<Rightarrow> SuggestionItem) \<Rightarrow> candidate list \<Rightarrow> error + candidate list"

text \<open>
  The state of one \<^verbatim>\<open>TagIt\<close> instance, followed by the part of the page it reads and
  writes: the store of the candidate objects, the selection of the window, the node store
  and the next free node reference. The candidate set is an array of object references.
  Console output, the event handlers, the asynchronous supplier and its debounce timer
  are not modelled.
\<close>

record TagIt =
  target :: target
  dropdown :: dropdownEl
  suggestions :: "objRef list"
  keepTrigger :: bool
  triggerChar :: string
  savedRange :: "domRange option"
  middlewares :: "SuggestionMiddleware list"
  maxSuggestions :: int
  minScore :: real
  objects :: "objRef \<Rightarrow> SuggestionItem"
  selection :: "domRange list option"
  nodes :: "ref \<Rightarrow> domNode"
  nextRef :: ref

text \<open>
  \<^verbatim>\<open>TagItOptions\<close>: every option may be absent. The constructor fills in the defaults and
  creates the dropdown, hidden and empty. The page is given to it: the object store, the
  selection and the node store exist before the instance does.
\<close>

record TagItOptions =
  optSuggestions :: "objRef list option"
  optKeepTrigger :: "bool option"
  optTriggerChar :: "string option"
  optMaxSuggestions :: "int option"
  optMinScore :: "real option"

definition createDropdown :: dropdownEl where
  "createDropdown = \<lparr>styleDisplay = DisplayNone, styleTop = 0, styleLeft = 0, items = []\<rparr>"

definition constructor ::
  "target \<Rightarrow> TagItOptions \<Rightarrow> (objRef \<Rightarrow> SuggestionItem) \<Rightarrow> domRange list option
     \<Rightarrow> (ref \<Rightarrow> domNode) \<Rightarrow> ref \<Rightarrow> TagIt" where
  "constructor tgt options objs sel store next =
     \<lparr>target = tgt,
      dropdown = createDropdown,
      suggestions = (case optSuggestions options of None \<Rightarrow> [] | Some xs \<Rightarrow> xs),
      keepTrigger = (case optKeepTrigger options of None \<Rightarrow> False | Some b \<Rightarrow> b),
      triggerChar = (case optTriggerChar options of None \<Rightarrow> ''@'' | Some c \<Rightarrow> c),
      savedRange = None,
      middlewares = [],
      maxSuggestions = (case optMaxSuggestions options of None \<Rightarrow> 5 | Some n \<Rightarrow> n),
      minScore = (case optMinScore options of None \<Rightarrow> 0 | Some x \<Rightarrow> x),
      objects = objs,
      selection = sel,
      nodes = store,
      nextRef = next\<rparr>"

definition use :: "SuggestionMiddleware \<Rightarrow> TagIt \<Rightarrow> TagIt" where
  "use middleware s = s\<lparr>middlewares := middlewares s @ [middleware]\<rparr>"

definition addSuggestion :: "objRef \<Rightarrow> TagIt \<Rightarrow> TagIt" where
  "addSuggestion suggestion s = s\<lparr>suggestions := suggestions s @ [suggestion]\<rparr>"

definition removeSuggestion :: "string \<Rightarrow> TagIt \<Rightarrow> TagIt" where
  "removeSuggestion k s =
     s\<lparr>suggestions := filter (\<lambda>item. key (objects s item) \<noteq> k) (suggestions s)\<rparr>"

definition isInputTarget :: "TagIt \<Rightarrow> bool" where
  "isInputTarget s = (case target s of InputTarget ta \<Rightarrow> True | EditableTarget \<Rightarrow> False)"

definition getTextBeforeCaretForInput :: "textarea \<Rightarrow> string" where
  "getTextBeforeCaretForInput ta = substring (inputValue ta) 0 (selectionStart ta)"

definition getTextBeforeCaretForEditable :: "TagIt \<Rightarrow> string" where
  "getTextBeforeCaretForEditable s =
     (case selection s of
        Some (r # rs) \<Rightarrow>
          (let node = nodes s (startContainer r)
           in if nodeType node = TEXT_NODE
              then (case textContent node of
                      None \<Rightarrow> []
                    | Some t \<Rightarrow> substring t 0 (startOffset r))
              else [])
      | _ \<Rightarrow> [])"

definition getQueryForInput :: "TagIt \<Rightarrow> textarea \<Rightarrow> string" where
  "getQueryForInput s ta =
     (let start = selectionStart ta;
          v = inputValue ta
      in case lastIndexOf v (triggerChar s) start of
           None \<Rightarrow> []
         | Some triggerIndex \<Rightarrow> substring v (triggerIndex + 1) start)"

definition getQueryForEditable :: "TagIt \<Rightarrow> string" where
  "getQueryForEditable s =
     (case selection s of
        Some (r # rs) \<Rightarrow>
          (let node = nodes s (startContainer r)
           in if nodeType node = TEXT_NODE
              then (let content = (case textContent node of None \<Rightarrow> [] | Some t \<Rightarrow> t)
                    in case lastIndexOf content (triggerChar s) (startOffset r) of
                         None \<Rightarrow> []
                       | Some triggerIndex \<Rightarrow>
                           substring content (triggerIndex + 1) (startOffset r))
              else [])
      | _ \<Rightarrow> [])"

definition getTriggerQuery :: "TagIt \<Rightarrow> string" where
  "getTriggerQuery s =
     (case target s of
        InputTarget ta \<Rightarrow> getQueryForInput s ta
      | EditableTarget \<Rightarrow> getQueryForEditable s)"

definition isTriggerActive :: "TagIt \<Rightarrow> bool" where
  "isTriggerActive s =
     (let textBeforeCaret =
            (case target s of
               InputTarget ta \<Rightarrow> getTextBeforeCaretForInput ta
             | EditableTarget \<Rightarrow> getTextBeforeCaretForEditable s);
          normalised = replaceNbsp textBeforeCaret;
          parts = split normalised (CHR '' '');
          lastPart = last parts
      in startsWith lastPart (triggerChar s)
         \<and> indexOf (getTriggerQuery s) '' '' = None)"

subsection \<open>Dropdown rendering\<close>

text \<open>
  The loop over \<^verbatim>\<open>this.middlewares\<close> in \<^verbatim>\<open>showDropdown\<close>: the assignment to
  \<^verbatim>\<open>suggestionsToShow\<close> is inside the \<^verbatim>\<open>try\<close>, the \<^verbatim>\<open>catch\<close> only logs. The loop
  is given the middlewares as functions of the working list.
\<close>

fun applyMiddlewares :: "('a \<Rightarrow> error + 'a) list \<Rightarrow> 'a \<Rightarrow> 'a" where
  "applyMiddlewares [] suggestionsToShow = suggestionsToShow"
| "applyMiddlewares (middleware # rest) suggestionsToShow =
     applyMiddlewares rest
       (case middleware suggestionsToShow of
          Inr result \<Rightarrow> result
        | Inl err \<Rightarrow> suggestionsToShow)"

definition hideDropdown :: "TagIt \<Rightarrow> TagIt" where
  "hideDropdown s = s\<lparr>dropdown := (dropdown s)\<lparr>styleDisplay := DisplayNone\<rparr>\<rparr>"

text \<open>
  What \<^verbatim>\<open>showDropdown\<close> has when it tests the length of \<^verbatim>\<open>suggestionsToShow\<close>: the
  object store after the scoring engine has run, and the working list, which is the
  clone of the candidate set after the middlewares, the scoring engine and the cut to
  \<^verbatim>\<open>maxSuggestions\<close>. The clone is shallow: it refers to the objects of the candidate set.
\<close>

definition rankedCandidates :: "TagIt \<Rightarrow> (objRef \<Rightarrow> SuggestionItem) \<times> candidate list" where
  "rankedCandidates s =
     (let afterMiddlewares =
            applyMiddlewares (map (\<lambda>middleware. middleware (objects s)) (middlewares s))
              (map Stored (suggestions s));
          query = toLowerCase (getTriggerQuery s);
          (scoredStore, ranked) =
            sortAndFilterSuggestionsOn (objects s) afterMiddlewares query (minScore s)
      in (scoredStore, slice0 ranked (maxSuggestions s)))"

definition suggestionsToShow :: "TagIt \<Rightarrow> candidate list" where
  "suggestionsToShow s = snd (rankedCandidates s)"

text \<open>
  \<^verbatim>\<open>showDropdown(position)\<close>. The line height comes from the computed style of the
  target (\<^verbatim>\<open>getLineHeight\<close>) and is an argument here. The scores are in the objects
  before the dropdown is hidden or filled.
\<close>

definition showDropdown :: "Coordinates \<Rightarrow> real \<Rightarrow> TagIt \<Rightarrow> TagIt" where
  "showDropdown position lineHeight s =
     (let (scoredStore, toShow) = rankedCandidates s;
          scored = s\<lparr>objects := scoredStore\<rparr>
      in if length toShow = 0 then hideDropdown scored
         else scored\<lparr>dropdown :=
                 \<lparr>styleDisplay = DisplayBlock,
                  styleTop = top_px position + lineHeight,
                  styleLeft = left_px position + 5,
                  items = map (\<lambda>c. display (valueOf scoredStore c)) toShow\<rparr>\<rparr>)"

subsection \<open>Tag insertion\<close>

definition insertTagForTextarea :: "TagIt \<Rightarrow> string \<Rightarrow> textarea \<Rightarrow> textarea" where
  "insertTagForTextarea s tag ta =
     (let start = selectionStart ta;
          endPos = selectionEnd ta;
          v = inputValue ta
      in case lastIndexOf v (triggerChar s) start of
           None \<Rightarrow> ta
         | Some triggerIndex \<Rightarrow>
             (let beforeTrigger = substring v 0 triggerIndex;
                  afterCaret = drop endPos v;
                  triggerPart = (if keepTrigger s then triggerChar s else []);
                  newValue = beforeTrigger @ triggerPart @ tag @ '' '' @ afterCaret;
                  newPos = length beforeTrigger + length triggerPart + length tag + 1
              in setSelectionRange newPos newPos (setValue newValue ta)))"

text \<open>
  The DOM calls of \<^verbatim>\<open>insertTagForContentEditable\<close>. \<^verbatim>\<open>insertBefore\<close> and
  \<^verbatim>\<open>removeChild\<close> throw \<^verbatim>\<open>NotFoundError\<close> when the reference node is not a child of
  the parent. The node given to \<^verbatim>\<open>insertBefore\<close> is a new, detached one at every call of
  the source.
\<close>

definition createTextNode :: "string \<Rightarrow> TagIt \<Rightarrow> ref \<times> TagIt" where
  "createTextNode content s =
     (nextRef s,
      s\<lparr>nodes := (nodes s)(nextRef s :=
            \<lparr>nodeType = TEXT_NODE, textContent = Some content,
             parentNode = None, childNodes = []\<rparr>),
        nextRef := Suc (nextRef s)\<rparr>)"

fun insertAt :: "ref \<Rightarrow> ref \<Rightarrow> ref list \<Rightarrow> ref list" where
  "insertAt new child [] = []"
| "insertAt new child (c # cs) =
     (if c = child then new # c # cs else c # insertAt new child cs)"

definition insertBefore :: "ref \<Rightarrow> ref \<Rightarrow> ref \<Rightarrow> TagIt \<Rightarrow> error + TagIt" where
  "insertBefore parent new child s =
     (if child \<notin> set (childNodes (nodes s parent)) then Inl NotFoundError
      else
        (let withChild = (nodes s)(parent := (nodes s parent)
                \<lparr>childNodes := insertAt new child (childNodes (nodes s parent))\<rparr>);
             withParent = withChild(new := (withChild new)\<lparr>parentNode := Some parent\<rparr>)
         in Inr (s\<lparr>nodes := withParent\<rparr>)))"

definition removeChild :: "ref \<Rightarrow> ref \<Rightarrow> TagIt \<Rightarrow> error + TagIt" where
  "removeChild parent child s =
     (if child \<notin> set (childNodes (nodes s parent)) then Inl NotFoundError
      else
        (let withoutChild = (nodes s)(parent := (nodes s parent)
                \<lparr>childNodes := remove1 child (childNodes (nodes s parent))\<rparr>);
             detached = withoutChild(child := (withoutChild child)\<lparr>parentNode := None\<rparr>)
         in Inr (s\<lparr>nodes := detached\<rparr>)))"

text \<open>
  \<^verbatim>\<open>document.createRange()\<close>, \<^verbatim>\<open>setStartAfter(node)\<close>, \<^verbatim>\<open>collapse(true)\<close>: the
  position in the parent just after the node.
\<close>

definition rangeAfter :: "ref \<Rightarrow> TagIt \<Rightarrow> error + domRange" where
  "rangeAfter node s =
     (case parentNode (nodes s node) of
        None \<Rightarrow> Inl InvalidNodeTypeError
      | Some parent \<Rightarrow>
          Inr \<lparr>startContainer = parent,
               startOffset =
                 Suc (length (takeWhile (\<lambda>c. c \<noteq> node) (childNodes (nodes s parent))))\<rparr>)"

text \<open>
  \<^verbatim>\<open>insertTagForContentEditable\<close> returns the state it leaves and the exception it
  ends with, if any. Ranges held by the instance are not adjusted when nodes are removed.
\<close>

definition spliceTextNode ::
  "ref \<Rightarrow> ref \<Rightarrow> ref \<Rightarrow> ref \<Rightarrow> ref \<Rightarrow> TagIt \<Rightarrow> TagIt \<times> error option" where
  "spliceTextNode parent node beforeNode tagNode afterNode s =
     (case insertBefore parent beforeNode node s of
        Inl e \<Rightarrow> (s, Some e)
      | Inr s1 \<Rightarrow>
     (case insertBefore parent tagNode node s1 of
        Inl e \<Rightarrow> (s1, Some e)
      | Inr s2 \<Rightarrow>
     (case insertBefore parent afterNode node s2 of
        Inl e \<Rightarrow> (s2, Some e)
      | Inr s3 \<Rightarrow>
     (case removeChild parent node s3 of
        Inl e \<Rightarrow> (s3, Some e)
      | Inr s4 \<Rightarrow>
     (case rangeAfter tagNode s4 of
        Inl e \<Rightarrow> (s4, Some e)
      | Inr newRange \<Rightarrow> (s4\<lparr>selection := Some [newRange]\<rparr>, None))))))"

definition insertTagForContentEditable :: "string \<Rightarrow> TagIt \<Rightarrow> TagIt \<times> error option" where
  "insertTagForContentEditable tag s0 =
     (let s = (case (savedRange s0, selection s0) of
                 (Some saved, Some rs) \<Rightarrow> s0\<lparr>selection := Some [saved]\<rparr>
               | _ \<Rightarrow> s0)
      in case selection s of
           Some (r # rs) \<Rightarrow>
             (let node = startContainer r
              in if nodeType (nodes s node) \<noteq> TEXT_NODE then (s, None)
                 else
                   (let content = (case textContent (nodes s node) of None \<Rightarrow> [] | Some t \<Rightarrow> t)
                    in case lastIndexOf content (triggerChar s) (startOffset r) of
                         None \<Rightarrow> (s, None)
                       | Some triggerIndex \<Rightarrow>
                           (let beforeText = substring content 0 triggerIndex;
                                afterText = drop (startOffset r) content;
                                triggerPart = (if keepTrigger s then triggerChar s else []);
                                insertText = triggerPart @ tag @ '' '';
                                (beforeNode, s1) = createTextNode beforeText s;
                                (tagNode, s2) = createTextNode insertText s1;
                                (afterNode, s3) = createTextNode afterText s2
                            in case parentNode (nodes s3 node) of
                                 None \<Rightarrow> (s3, None)
                               | Some parent \<Rightarrow>
                                   spliceTextNode parent node beforeNode tagNode afterNode s3)))
         | _ \<Rightarrow> (s, None))"

text \<open>
  \<^verbatim>\<open>insertTag\<close> catches what either variant throws and logs it; the state is the one
  left at the throw.
\<close>

definition insertTag :: "string \<Rightarrow> TagIt \<Rightarrow> TagIt" where
  "insertTag tag s =
     (case target s of
        InputTarget ta \<Rightarrow> s\<lparr>target := InputTarget (insertTagForTextarea s tag ta)\<rparr>
      | EditableTarget \<Rightarrow> fst (insertTagForContentEditable tag s))"

section \<open>Notions of the specification\<close>

text \<open>\<open>t\<close> occurs in \<open>s\<close> at index \<open>k\<close>.\<close>

definition occursAt :: "'a list \<Rightarrow> 'a list \<Rightarrow> nat \<Rightarrow> bool" where
  "occursAt s t k \<longleftrightarrow> k \<le> length s \<and> take (length t) (drop k s) = t"

text \<open>\<open>i\<close> is the first index at which \<open>t\<close> occurs in \<open>s\<close>.\<close>

definition isFirstIndex :: "'a list \<Rightarrow> 'a list \<Rightarrow> nat \<Rightarrow> bool" where
  "isFirstIndex s t i \<longleftrightarrow> occursAt s t i \<and> (\<forall>j \<in> {..<i}. \<not> occursAt s t j)"

text \<open>\<open>i\<close> is the last index at or before \<open>p\<close> at which \<open>t\<close> occurs in \<open>s\<close>.\<close>

definition isLastIndexUpTo :: "'a list \<Rightarrow> 'a list \<Rightarrow> nat \<Rightarrow> nat \<Rightarrow> bool" where
  "isLastIndexUpTo s t p i \<longleftrightarrow>
     occursAt s t i \<and> i \<le> p \<and> (\<forall>j \<in> {i<..p}. \<not> occursAt s t j)"

text \<open>\<open>t\<close> does not occur in \<open>s\<close> at or before \<open>p\<close>.\<close>

definition noOccurrenceUpTo :: "'a list \<Rightarrow> 'a list \<Rightarrow> nat \<Rightarrow> bool" where
  "noOccurrenceUpTo s t p \<longleftrightarrow> (\<forall>j \<in> {..p}. \<not> occursAt s t j)"

text \<open>The final token of a text: what follows its last space, or all of it.\<close>

definition finalToken :: "string \<Rightarrow> string" where
  "finalToken text = rev (takeWhile (\<lambda>c. c \<noteq> CHR '' '') (rev text))"

text \<open>The text before the caret of the target, in either text model.\<close>

definition textBeforeCaret :: "TagIt \<Rightarrow> string" where
  "textBeforeCaret s =
     (case target s of
        InputTarget ta \<Rightarrow> getTextBeforeCaretForInput ta
      | EditableTarget \<Rightarrow> getTextBeforeCaretForEditable s)"

text \<open>
  The text after the last occurrence of \<open>c\<close> in a text, and the text before that
  occurrence.
\<close>

definition afterLast :: "'a \<Rightarrow> 'a list \<Rightarrow> 'a list" where
  "afterLast c text = rev (takeWhile (\<lambda>x. x \<noteq> c) (rev text))"

definition beforeLast :: "'a \<Rightarrow> 'a list \<Rightarrow> 'a list" where
  "beforeLast c text = take (length text - Suc (length (afterLast c text))) text"

text \<open>
  The text window of a caret position in the editable model: the content of the text
  node that holds the caret; none when the container is not a text node.
\<close>

definition caretText :: "TagIt \<Rightarrow> domRange \<Rightarrow> string option" where
  "caretText s r =
     (if nodeType (nodes s (startContainer r)) = TEXT_NODE
      then Some (case textContent (nodes s (startContainer r)) of None \<Rightarrow> [] | Some t \<Rightarrow> t)
      else None)"

text \<open>
  The caret position an insertion into the editable model works at: the saved range when
  there is one, otherwise the first range of the selection.
\<close>

definition insertionRange :: "TagIt \<Rightarrow> domRange option" where
  "insertionRange s =
     (case selection s of
        None \<Rightarrow> None
      | Some rs \<Rightarrow>
          (case savedRange s of
             Some saved \<Rightarrow> Some saved
           | None \<Rightarrow> (case rs of [] \<Rightarrow> None | r # rest \<Rightarrow> Some r)))"

text \<open>The control of kind \<open>k\<close> stores the string \<open>t\<close> as it is.\<close>

definition storedVerbatim :: "controlKind \<Rightarrow> string \<Rightarrow> bool" where
  "storedVerbatim k t \<longleftrightarrow> sanitize k t = t"

text \<open>The candidate with the score for a query attached.\<close>

definition withScore :: "string \<Rightarrow> SuggestionItem \<Rightarrow> SuggestionItem" where
  "withScore query c = c\<lparr>matchScore := Some (getMatchScore (key c) query)\<rparr>"

section \<open>Pages and options of the scenarios\<close>

text \<open>No option given: every default applies.\<close>

definition noOptions :: TagItOptions where
  "noOptions = \<lparr>optSuggestions = None, optKeepTrigger = None, optTriggerChar = None,
                optMaxSuggestions = None, optMinScore = None\<rparr>"

text \<open>A page without a selection, every reference a detached element without children.\<close>

definition detachedElement :: domNode where
  "detachedElement =
     \<lparr>nodeType = ELEMENT_NODE, textContent = None, parentNode = None, childNodes = []\<rparr>"

text \<open>An object store where every reference is a candidate without text and score.\<close>

definition blankItem :: SuggestionItem where
  "blankItem = \<lparr>display = [], key = [], matchScore = None\<rparr>"

text \<open>
  The instance \<open>s\<close> with the candidates \<open>cs\<close> as its candidate set: they are the objects
  at the references \<open>0\<close>, \<open>1\<close>, ... of the store.
\<close>

definition holding :: "SuggestionItem list \<Rightarrow> TagIt \<Rightarrow> TagIt" where
  "holding cs s =
     s\<lparr>suggestions := [0..<length cs],
       objects := (\<lambda>r. if r < length cs then cs ! r else objects s r)\<rparr>"

text \<open>An instance on a text control, on a page where nothing is selected.\<close>

definition onTextarea :: "textarea \<Rightarrow> TagItOptions \<Rightarrow> TagIt" where
  "onTextarea ta options =
     constructor (InputTarget ta) options (\<lambda>r. blankItem) None (\<lambda>r. detachedElement) 0"

text \<open>The textarea holding \<open>text\<close> with the caret at offset \<open>caret\<close>.\<close>

definition caretAt :: "string \<Rightarrow> nat \<Rightarrow> textarea" where
  "caretAt text caret =
     \<lparr>control = TextAreaControl, inputValue = text,
      selectionStart = caret, selectionEnd = caret\<rparr>"

text \<open>
  An instance on an editable element (reference 0) whose only child is a text node
  (reference 1) holding \<open>text\<close>, with the caret in that node at offset \<open>caret\<close>.
\<close>

definition onEditable :: "string \<Rightarrow> nat \<Rightarrow> TagItOptions \<Rightarrow> TagIt" where
  "onEditable text caret options =
     constructor EditableTarget options (\<lambda>r. blankItem)
       (Some [\<lparr>startContainer = 1, startOffset = caret\<rparr>])
       ((\<lambda>r. detachedElement)
          (0 := detachedElement\<lparr>childNodes := [1]\<rparr>,
           1 := \<lparr>nodeType = TEXT_NODE, textContent = Some text,
                 parentNode = Some 0, childNodes = []\<rparr>))
       2"



section \<open>Facts about the string operations\<close>

lemma occursAt_iff: "occursAt s t k \<longleftrightarrow> (\<exists>pre suf. s = pre @ t @ suf \<and> length pre = k)"
proof
  assume h: "occursAt s t k"
  have "s = take k s @ take (length t) (drop k s) @ drop (length t) (drop k s)"
    by (simp only: append_take_drop_id)
  with h have "s = take k s @ t @ drop (length t) (drop k s) \<and> length (take k s) = k"
    by (simp add: occursAt_def)
  then show "\<exists>pre suf. s = pre @ t @ suf \<and> length pre = k" by blast
next
  assume "\<exists>pre suf. s = pre @ t @ suf \<and> length pre = k"
  then show "occursAt s t k" by (auto simp: occursAt_def)
qed

lemma occursAt_0: "occursAt s t 0 \<longleftrightarrow> startsWith s t"
  by (simp add: occursAt_def startsWith_def)

lemma occursAt_Suc: "occursAt (c # cs) t (Suc k) \<longleftrightarrow> occursAt cs t k"
  by (simp add: occursAt_def)

lemma occursAt_Nil: "occursAt [] t k \<longleftrightarrow> t = [] \<and> k = 0"
  by (auto simp: occursAt_def)

lemma occursAt_length: "occursAt s t k \<Longrightarrow> k + length t \<le> length s"
  by (auto simp: occursAt_iff)

lemma sublist_iff_occursAt: "sublist t s \<longleftrightarrow> (\<exists>k. occursAt s t k)"
  by (auto simp: sublist_def occursAt_iff)

lemma indexOf_None: "indexOf s t = None \<longleftrightarrow> (\<forall>k. \<not> occursAt s t k)"
proof (induction s)
  case Nil
  show ?case by (auto simp: occursAt_Nil)
next
  case (Cons c cs)
  have "(\<forall>k. \<not> occursAt (c # cs) t k) \<longleftrightarrow> \<not> occursAt (c # cs) t 0 \<and> (\<forall>k. \<not> occursAt cs t k)"
    by (metis occursAt_Suc not0_implies_Suc)
  with Cons show ?case by (simp add: occursAt_0)
qed

lemma indexOf_Some:
  "indexOf s t = Some i \<longleftrightarrow> occursAt s t i \<and> (\<forall>j<i. \<not> occursAt s t j)"
proof (induction s arbitrary: i)
  case Nil
  show ?case by (auto simp: occursAt_Nil)
next
  case (Cons c cs)
  show ?case
  proof (cases "startsWith (c # cs) t")
    case True
    then have "occursAt (c # cs) t 0" by (simp add: occursAt_0)
    with True show ?thesis by (cases i) auto
  next
    case False
    then have no0: "\<not> occursAt (c # cs) t 0" by (simp add: occursAt_0)
    show ?thesis
    proof (cases i)
      case 0
      with False no0 show ?thesis by simp
    next
      case (Suc i')
      have "(\<forall>j<Suc i'. \<not> occursAt (c # cs) t j) \<longleftrightarrow> (\<forall>j<i'. \<not> occursAt cs t j)"
        using no0 by (metis occursAt_Suc less_Suc_eq_0_disj Suc_less_eq)
      with False Suc Cons.IH[of i'] show ?thesis by (auto simp: occursAt_Suc)
    qed
  qed
qed

lemma lastIndexOfUpTo_None:
  "k \<le> length s \<Longrightarrow> lastIndexOfUpTo s t k = None \<longleftrightarrow> (\<forall>j\<le>k. \<not> occursAt s t j)"
proof (induction k)
  case 0
  then show ?case by (simp add: occursAt_0)
next
  case (Suc k)
  have "occursAt s t (Suc k) \<longleftrightarrow> startsWith (drop (Suc k) s) t"
    using Suc.prems by (simp add: occursAt_def startsWith_def)
  with Suc show ?case by (auto simp: le_Suc_eq)
qed

lemma lastIndexOfUpTo_Some:
  "k \<le> length s \<Longrightarrow>
   lastIndexOfUpTo s t k = Some i \<longleftrightarrow>
     occursAt s t i \<and> i \<le> k \<and> (\<forall>j. i < j \<and> j \<le> k \<longrightarrow> \<not> occursAt s t j)"
proof (induction k)
  case 0
  show ?case by (cases i) (auto simp: occursAt_0)
next
  case (Suc k)
  have eq: "occursAt s t (Suc k) \<longleftrightarrow> startsWith (drop (Suc k) s) t"
    using Suc.prems by (simp add: occursAt_def startsWith_def)
  show ?case
  proof (cases "occursAt s t (Suc k)")
    case True
    with eq show ?thesis by (auto simp: le_Suc_eq) 
  next
    case False
    with eq Suc show ?thesis
      by (auto simp: le_Suc_eq)
  qed
qed

lemma occursAt_min: "occursAt s t j \<Longrightarrow> j \<le> p \<Longrightarrow> j \<le> min p (length s)"
  by (simp add: occursAt_def)

lemma lastIndexOf_None: "lastIndexOf s t p = None \<longleftrightarrow> (\<forall>j\<le>p. \<not> occursAt s t j)"
  unfolding lastIndexOf_def
  by (subst lastIndexOfUpTo_None) (auto simp: occursAt_def)

lemma lastIndexOf_Some:
  "lastIndexOf s t p = Some i \<longleftrightarrow>
     occursAt s t i \<and> i \<le> p \<and> (\<forall>j. i < j \<and> j \<le> p \<longrightarrow> \<not> occursAt s t j)"
  unfolding lastIndexOf_def
  by (subst lastIndexOfUpTo_Some) (auto dest: occursAt_min simp: occursAt_def)

lemma split_nonempty: "split s sep \<noteq> []"
  by (induction s) (auto split: list.splits)

lemma split_no_sep: "sep \<notin> set s \<Longrightarrow> split s sep = [s]"
  by (induction s) auto

lemma split_with_sep: "sep \<in> set s \<Longrightarrow> \<exists>p ps. split s sep = p # ps \<and> ps \<noteq> []"
proof (induction s)
  case Nil
  then show ?case by simp
next
  case (Cons c cs)
  show ?case
  proof (cases "c = sep")
    case True
    then show ?thesis by (simp add: split_nonempty)
  next
    case False
    with Cons.prems have "sep \<in> set cs" by simp
    from Cons.IH[OF this] obtain p ps where "split cs sep = p # ps" "ps \<noteq> []" by blast
    with False show ?thesis by simp
  qed
qed

lemma last_split_Cons:
  "last (split (c # cs) sep) =
     (if sep \<in> set cs then last (split cs sep) else if c = sep then cs else c # cs)"
proof (cases "sep \<in> set cs")
  case True
  then obtain p ps where ps: "split cs sep = p # ps" "ps \<noteq> []"
    using split_with_sep[of sep cs] by auto
  with True show ?thesis by simp
next
  case False
  then have "split cs sep = [cs]" by (rule split_no_sep)
  with False show ?thesis by simp
qed

lemma last_split: "last (split s sep) = rev (takeWhile (\<lambda>c. c \<noteq> sep) (rev s))"
proof (induction s)
  case Nil
  show ?case by simp
next
  case (Cons c cs)
  show ?case
  proof (cases "sep \<in> set cs")
    case True
    then have "takeWhile (\<lambda>c. c \<noteq> sep) (rev cs @ [c]) = takeWhile (\<lambda>c. c \<noteq> sep) (rev cs)"
      by (intro takeWhile_append1[of sep]) auto
    with True Cons show ?thesis by (simp add: last_split_Cons del: split.simps)
  next
    case False
    then have "takeWhile (\<lambda>c. c \<noteq> sep) (rev cs @ [c]) = rev cs @ takeWhile (\<lambda>c. c \<noteq> sep) [c]"
      by (intro takeWhile_append2) auto
    with False show ?thesis by (simp add: last_split_Cons del: split.simps)
  qed
qed

section \<open>The scoring engine\<close>

lemma isFirstIndex_iff: "isFirstIndex s t i \<longleftrightarrow> indexOf s t = Some i"
  by (auto simp: isFirstIndex_def indexOf_Some)

lemma indexOf_bound: "indexOf s t = Some i \<Longrightarrow> i + length t \<le> length s"
  by (simp add: indexOf_Some occursAt_length)

lemma toLowerCase_Nil: "toLowerCase s = [] \<longleftrightarrow> s = []"
  by (simp add: toLowerCase_def)

lemma length_toLowerCase: "length (toLowerCase s) = length s"
  by (simp add: toLowerCase_def)

lemma getMatchScore_found:
  assumes "toLowerCase query \<noteq> []" "toLowerCase k \<noteq> toLowerCase query"
    "indexOf (toLowerCase k) (toLowerCase query) = Some i"
  shows "getMatchScore k query = 1 - real i / real (length (toLowerCase k))"
    and "0 < getMatchScore k query" and "getMatchScore k query \<le> 1"
proof -
  let ?n = "length (toLowerCase k)"
  from assms(1) have "0 < length (toLowerCase query)" by simp
  with indexOf_bound[OF assms(3)] have lt: "i < ?n" by linarith
  then have pos: "0 < real ?n" and "real i < real ?n" by auto
  then have "real i / real ?n < 1" by (simp add: divide_less_eq)
  moreover have "0 \<le> real i / real ?n" by simp
  ultimately have r: "0 < 1 - real i / real ?n" "1 - real i / real ?n \<le> 1" by linarith+
  from assms have "getMatchScore k query = max 0 (min 1 (1 - real i / real ?n))"
    by (simp add: getMatchScore_def Let_def)
  with r show "getMatchScore k query = 1 - real i / real ?n" by simp
  with r show "0 < getMatchScore k query" "getMatchScore k query \<le> 1" by simp_all
qed

lemma getMatchScore_range: "0 \<le> getMatchScore k query \<and> getMatchScore k query \<le> 1"
  by (simp add: getMatchScore_def Let_def split: option.splits)

text \<open>
  C1: \<open>getMatchScore\<close> is 0 for the empty query; otherwise 1 when key and query are equal
  ignoring case; otherwise 0 when the lower-cased query is not a substring of the
  lower-cased key; otherwise 1 minus the first index of the lower-cased query in the
  lower-cased key divided by the length of that key, clamped into the interval from 0 to 1
  (the four cases cover every input). The result always lies between 0 and 1.
\<close>

theorem getMatchScore_spec:
  "(query = [] \<longrightarrow> getMatchScore k query = 0)
   \<and> (query \<noteq> [] \<and> toLowerCase k = toLowerCase query \<longrightarrow> getMatchScore k query = 1)
   \<and> (query \<noteq> [] \<and> \<not> sublist (toLowerCase query) (toLowerCase k) \<longrightarrow> getMatchScore k query = 0)
   \<and> (\<forall>i. query \<noteq> [] \<and> toLowerCase k \<noteq> toLowerCase query
           \<and> isFirstIndex (toLowerCase k) (toLowerCase query) i
         \<longrightarrow> getMatchScore k query
             = max 0 (min 1 (1 - real i / real (length (toLowerCase k)))))
   \<and> (sublist (toLowerCase query) (toLowerCase k)
        \<longrightarrow> (\<exists>i. isFirstIndex (toLowerCase k) (toLowerCase query) i))
   \<and> 0 \<le> getMatchScore k query \<and> getMatchScore k query \<le> 1"
proof (intro conjI impI allI)
  show "getMatchScore k query = 0" if "query = []"
    using that by (simp add: getMatchScore_def toLowerCase_def)
  show "getMatchScore k query = 1" if "query \<noteq> [] \<and> toLowerCase k = toLowerCase query"
    using that by (simp add: getMatchScore_def toLowerCase_Nil)
  show "getMatchScore k query = 0"
    if "query \<noteq> [] \<and> \<not> sublist (toLowerCase query) (toLowerCase k)"
  proof -
    from that have "indexOf (toLowerCase k) (toLowerCase query) = None"
      by (simp add: indexOf_None sublist_iff_occursAt)
    moreover from that have "toLowerCase k \<noteq> toLowerCase query" by auto
    ultimately show ?thesis by (simp add: getMatchScore_def Let_def)
  qed
  show "getMatchScore k query = max 0 (min 1 (1 - real i / real (length (toLowerCase k))))"
    if "query \<noteq> [] \<and> toLowerCase k \<noteq> toLowerCase query
        \<and> isFirstIndex (toLowerCase k) (toLowerCase query) i" for i
    using that by (simp add: getMatchScore_def Let_def isFirstIndex_iff toLowerCase_Nil)
  show "\<exists>i. isFirstIndex (toLowerCase k) (toLowerCase query) i"
    if "sublist (toLowerCase query) (toLowerCase k)"
  proof -
    from that have "indexOf (toLowerCase k) (toLowerCase query) \<noteq> None"
      by (simp add: indexOf_None sublist_iff_occursAt)
    then show ?thesis by (auto simp: isFirstIndex_iff)
  qed
  show "0 \<le> getMatchScore k query" "getMatchScore k query \<le> 1"
    using getMatchScore_range by simp_all
qed


theorem getMatchScore_spec_witness:
  "getMatchScore ''Alice'' [] = 0
   \<and> getMatchScore ''ALICE'' ''alice'' = 1
   \<and> getMatchScore ''Alice'' ''bob'' = 0
   \<and> getMatchScore ''Malice'' ''AL'' = 5 / 6"
proof -
  have lc: "toLowerCase ''ALICE'' = ''alice''" "toLowerCase ''alice'' = ''alice''"
    "toLowerCase ''Alice'' = ''alice''" "toLowerCase ''bob'' = ''bob''"
    "toLowerCase ''Malice'' = ''malice''" "toLowerCase ''AL'' = ''al''"
    by code_simp+
  have ns: "\<not> sublist ''bob'' ''alice''" by code_simp
  have fi: "isFirstIndex ''malice'' ''al'' 1" by code_simp
  have 1: "getMatchScore ''Alice'' [] = 0"
    using getMatchScore_spec[where k="''Alice''" and query="[]"] by simp
  have 2: "getMatchScore ''ALICE'' ''alice'' = 1"
    using getMatchScore_spec[where k="''ALICE''" and query="''alice''"] lc by simp
  have 3: "getMatchScore ''Alice'' ''bob'' = 0"
    using getMatchScore_spec[where k="''Alice''" and query="''bob''"] lc ns by simp
  have "getMatchScore ''Malice'' ''AL'' = max 0 (min 1 (1 - real 1 / real (length ''malice'')))"
    using getMatchScore_spec[where k="''Malice''" and query="''AL''"] lc fi by auto
  then have 4: "getMatchScore ''Malice'' ''AL'' = 5 / 6" by simp
  from 1 2 3 4 show ?thesis by blast
qed

lemma getMatchScore_zero_iff:
  assumes "query \<noteq> []"
  shows "getMatchScore k query = 0 \<longleftrightarrow> indexOf (toLowerCase k) (toLowerCase query) = None"
proof (cases "indexOf (toLowerCase k) (toLowerCase query)")
  case None
  then have "\<not> occursAt (toLowerCase k) (toLowerCase query) 0" by (simp add: indexOf_None)
  then have "toLowerCase k \<noteq> toLowerCase query" by (auto simp: occursAt_def)
  with None show ?thesis by (simp add: getMatchScore_def Let_def)
next
  case (Some i)
  from assms have q: "toLowerCase query \<noteq> []" by (simp add: toLowerCase_Nil)
  show ?thesis
  proof (cases "toLowerCase k = toLowerCase query")
    case True
    with q Some show ?thesis by (simp add: getMatchScore_def)
  next
    case False
    from getMatchScore_found(2)[OF q False Some] Some show ?thesis by simp
  qed
qed

text \<open>
  C5, as amended: for every key and every non-empty query, the score is 0 if and only if
  the lower-cased query is not a substring of the lower-cased key.
\<close>

theorem getMatchScore_zero_iff_not_substring:
  assumes "query \<noteq> []"
  shows "getMatchScore k query = 0 \<longleftrightarrow> \<not> sublist (toLowerCase query) (toLowerCase k)"
  using getMatchScore_zero_iff[OF assms] by (simp add: indexOf_None sublist_iff_occursAt)

theorem getMatchScore_zero_iff_not_substring_witness:
  "getMatchScore ''Bob'' ''al'' = 0 \<and> getMatchScore ''Malice'' ''AL'' \<noteq> 0"
proof -
  have lc: "toLowerCase ''Bob'' = ''bob''" "toLowerCase ''al'' = ''al''"
    "toLowerCase ''Malice'' = ''malice''" "toLowerCase ''AL'' = ''al''"
    by code_simp+
  have ns: "\<not> sublist ''al'' ''bob''" and s: "sublist ''al'' ''malice''" by code_simp+
  have 1: "getMatchScore ''Bob'' ''al'' = 0"
    using getMatchScore_zero_iff_not_substring[where k="''Bob''" and query="''al''"] lc ns
    by simp
  have 2: "getMatchScore ''Malice'' ''AL'' \<noteq> 0"
    using getMatchScore_zero_iff_not_substring[where k="''Malice''" and query="''AL''"] lc s
    by simp
  from 1 2 show ?thesis by blast
qed

text \<open>
  The claim as stated, with the empty query included, fails: the empty query scores 0
  against the key \<open>Alice\<close>, and the empty string is a substring of every key.
\<close>

theorem getMatchScore_zero_iff_counterexample:
  "\<not> (getMatchScore ''Alice'' [] = 0
       \<longleftrightarrow> \<not> sublist (toLowerCase []) (toLowerCase ''Alice''))"
  by (simp add: getMatchScore_def toLowerCase_def)

text \<open>
  C6: with the empty query, \<open>sortAndFilterSuggestions\<close> returns the array it was given,
  and leaves its content as it was: same elements, same order, nothing filtered, no score
  attached or changed.
\<close>

theorem sortAndFilterSuggestions_empty_query:
  "sortAndFilterSuggestions candidates [] threshold = (candidates, candidates)"
  by (simp add: sortAndFilterSuggestions_def)

theorem sortAndFilterSuggestions_empty_query_witness:
  "sortAndFilterSuggestions
     [\<lparr>display = ''Bob'', key = ''Bob'', matchScore = None\<rparr>,
      \<lparr>display = ''Alice'', key = ''Alice'', matchScore = Some (1 / 2)\<rparr>] [] 1
   = ([\<lparr>display = ''Bob'', key = ''Bob'', matchScore = None\<rparr>,
       \<lparr>display = ''Alice'', key = ''Alice'', matchScore = Some (1 / 2)\<rparr>],
      [\<lparr>display = ''Bob'', key = ''Bob'', matchScore = None\<rparr>,
       \<lparr>display = ''Alice'', key = ''Alice'', matchScore = Some (1 / 2)\<rparr>])"
  by (rule sortAndFilterSuggestions_empty_query)

lemma withScore_simps:
  "matchScore (withScore query c) = Some (getMatchScore (key c) query)"
  "key (withScore query c) = key c"
  "display (withScore query c) = display c"
  by (simp_all add: withScore_def)

lemma sortAndFilterSuggestions_nonempty:
  "query \<noteq> [] \<Longrightarrow>
   sortAndFilterSuggestions candidates query t =
     (map (withScore query) candidates,
      sort_key sortKey (filter (scoreAtLeast t) (map (withScore query) candidates)))"
  by (simp add: sortAndFilterSuggestions_def Let_def withScore_def[abs_def])

lemma scoreAtLeast_withScore:
  "scoreAtLeast t (withScore query c) \<longleftrightarrow> t \<le> getMatchScore (key c) query"
  by (simp add: scoreAtLeast_def withScore_simps)

lemma sortKey_withScore: "sortKey (withScore query c) = - getMatchScore (key c) query"
  by (simp add: sortKey_def withScore_simps)

lemma sorted_by_sortKey:
  assumes "\<forall>c \<in> set xs. matchScore c = Some (getMatchScore (key c) query)"
  shows "sorted_wrt (\<lambda>a b. getMatchScore (key b) query \<le> getMatchScore (key a) query)
           (sort_key sortKey xs)"
proof -
  have "sorted (map sortKey (sort_key sortKey xs))" by (rule sorted_sort_key)
  then have "sorted_wrt (\<lambda>a b. sortKey a \<le> sortKey b) (sort_key sortKey xs)"
    by (simp add: sorted_map)
  moreover have "sortKey c = - getMatchScore (key c) query" if "c \<in> set (sort_key sortKey xs)" for c
    using that assms by (simp add: sortKey_def)
  ultimately show ?thesis
    by (auto elim!: sorted_wrt_mono_rel[rotated])
qed

text \<open>
  C2: for a non-empty query and any threshold, \<open>sortAndFilterSuggestions\<close> attaches the
  score \<open>getMatchScore (key c) query\<close> to every candidate of the input; the array
  returned holds exactly the scored candidates whose score is at least the threshold, each
  as often as the input has it; every element carries its score, which is at least the
  threshold; and the scores descend along the array.
\<close>

theorem sortAndFilterSuggestions_spec:
  assumes "query \<noteq> []"
  shows "fst (sortAndFilterSuggestions candidates query t) = map (withScore query) candidates
    \<and> mset (snd (sortAndFilterSuggestions candidates query t))
        = mset (filter (\<lambda>c. t \<le> getMatchScore (key c) query) (map (withScore query) candidates))
    \<and> list_all (\<lambda>c. matchScore c = Some (getMatchScore (key c) query)
                     \<and> t \<le> getMatchScore (key c) query)
        (snd (sortAndFilterSuggestions candidates query t))
    \<and> sorted_wrt (\<lambda>a b. getMatchScore (key b) query \<le> getMatchScore (key a) query)
        (snd (sortAndFilterSuggestions candidates query t))"
proof -
  let ?scored = "map (withScore query) candidates"
  let ?kept = "filter (scoreAtLeast t) ?scored"
  have out: "sortAndFilterSuggestions candidates query t = (?scored, sort_key sortKey ?kept)"
    using assms by (rule sortAndFilterSuggestions_nonempty)
  have kept: "?kept = filter (\<lambda>c. t \<le> getMatchScore (key c) query) ?scored"
    by (rule filter_cong) (auto simp: scoreAtLeast_withScore withScore_simps)
  have all: "\<forall>c \<in> set ?kept. matchScore c = Some (getMatchScore (key c) query)
               \<and> t \<le> getMatchScore (key c) query"
    by (auto simp: withScore_simps scoreAtLeast_withScore)
  have 1: "fst (sortAndFilterSuggestions candidates query t) = ?scored"
    by (simp add: out)
  have 2: "mset (snd (sortAndFilterSuggestions candidates query t))
        = mset (filter (\<lambda>c. t \<le> getMatchScore (key c) query) ?scored)"
    by (simp add: out kept[symmetric])
  have 3: "list_all (\<lambda>c. matchScore c = Some (getMatchScore (key c) query)
                     \<and> t \<le> getMatchScore (key c) query)
        (snd (sortAndFilterSuggestions candidates query t))"
    using all by (simp add: out list_all_iff)
  have 4: "sorted_wrt (\<lambda>a b. getMatchScore (key b) query \<le> getMatchScore (key a) query)
        (snd (sortAndFilterSuggestions candidates query t))"
    using all by (simp add: out sorted_by_sortKey)
  from 1 2 3 4 show ?thesis by blast
qed


theorem sortAndFilterSuggestions_spec_witness:
  "snd (sortAndFilterSuggestions
          [\<lparr>display = ''Malice'', key = ''Malice'', matchScore = None\<rparr>,
           \<lparr>display = ''Bob'', key = ''Bob'', matchScore = None\<rparr>,
           \<lparr>display = ''Alice'', key = ''Alice'', matchScore = None\<rparr>] ''al'' (1 / 2))
     = [\<lparr>display = ''Alice'', key = ''Alice'', matchScore = Some 1\<rparr>,
        \<lparr>display = ''Malice'', key = ''Malice'', matchScore = Some (5 / 6)\<rparr>]
   \<and> fst (sortAndFilterSuggestions
          [\<lparr>display = ''Malice'', key = ''Malice'', matchScore = None\<rparr>,
           \<lparr>display = ''Bob'', key = ''Bob'', matchScore = None\<rparr>,
           \<lparr>display = ''Alice'', key = ''Alice'', matchScore = None\<rparr>] ''al'' (1 / 2))
     = [\<lparr>display = ''Malice'', key = ''Malice'', matchScore = Some (5 / 6)\<rparr>,
        \<lparr>display = ''Bob'', key = ''Bob'', matchScore = Some 0\<rparr>,
        \<lparr>display = ''Alice'', key = ''Alice'', matchScore = Some 1\<rparr>]
   \<and> sorted_wrt (\<lambda>a b. getMatchScore (key b) ''al'' \<le> getMatchScore (key a) ''al'')
        [\<lparr>display = ''Alice'', key = ''Alice'', matchScore = Some 1\<rparr>,
         \<lparr>display = ''Malice'', key = ''Malice'', matchScore = Some (5 / 6)\<rparr>]"
proof -
  let ?cs = "[\<lparr>display = ''Malice'', key = ''Malice'', matchScore = None\<rparr>,
           \<lparr>display = ''Bob'', key = ''Bob'', matchScore = None\<rparr>,
           \<lparr>display = ''Alice'', key = ''Alice'', matchScore = None\<rparr>]"
  have q: "''al'' \<noteq> []" by simp
  have sc: "getMatchScore ''Malice'' ''al'' = 5 / 6" "getMatchScore ''Bob'' ''al'' = 0"
    "getMatchScore ''Alice'' ''al'' = 1"
    by code_simp+
  have out: "snd (sortAndFilterSuggestions ?cs ''al'' (1 / 2))
     = [\<lparr>display = ''Alice'', key = ''Alice'', matchScore = Some 1\<rparr>,
        \<lparr>display = ''Malice'', key = ''Malice'', matchScore = Some (5 / 6)\<rparr>]"
    by (simp add: sortAndFilterSuggestions_def sc scoreAtLeast_def sortKey_def)
  from sortAndFilterSuggestions_spec[OF q, of ?cs "1 / 2"] out sc
  show ?thesis by (simp add: withScore_def)
qed


section \<open>The render pipeline\<close>

lemma applyMiddlewares_append:
  "applyMiddlewares (ms1 @ ms2) xs = applyMiddlewares ms2 (applyMiddlewares ms1 xs)"
  by (induction ms1 arbitrary: xs) simp_all

lemma rankedCandidates_eq:
  "rankedCandidates s =
     (fst (sortAndFilterSuggestionsOn (objects s)
             (applyMiddlewares (map (\<lambda>middleware. middleware (objects s)) (middlewares s))
                (map Stored (suggestions s)))
             (toLowerCase (getTriggerQuery s)) (minScore s)),
      slice0 (snd (sortAndFilterSuggestionsOn (objects s)
             (applyMiddlewares (map (\<lambda>middleware. middleware (objects s)) (middlewares s))
                (map Stored (suggestions s)))
             (toLowerCase (getTriggerQuery s)) (minScore s)))
        (maxSuggestions s))"
  by (simp add: rankedCandidates_def Let_def split: prod.splits)

lemma showDropdown_middlewares:
  "suggestionsToShow s =
     slice0 (snd (sortAndFilterSuggestionsOn (objects s)
             (applyMiddlewares (map (\<lambda>middleware. middleware (objects s)) (middlewares s))
                (map Stored (suggestions s)))
             (toLowerCase (getTriggerQuery s)) (minScore s)))
        (maxSuggestions s)"
  by (simp add: suggestionsToShow_def rankedCandidates_eq)

text \<open>
  C7: the middlewares run in registration order, each on the working list its
  predecessors left. A middleware that throws leaves the working list as it was passed to
  it, and the middlewares registered after it run on that list; one that returns replaces
  the working list by its result. In \<open>showDropdown\<close> the list that is scored comes from
  the middlewares after the one that throws, run on what it was given.
\<close>

theorem applyMiddlewares_throwing_stage:
  "(middleware (applyMiddlewares earlier candidates) = Inl err \<longrightarrow>
      applyMiddlewares (earlier @ middleware # later) candidates
        = applyMiddlewares later (applyMiddlewares earlier candidates))
   \<and> (middleware (applyMiddlewares earlier candidates) = Inr result \<longrightarrow>
      applyMiddlewares (earlier @ middleware # later) candidates
        = applyMiddlewares later result)
   \<and> (middlewares s = registered @ thrower # rest
        \<and> thrower (objects s)
             (applyMiddlewares (map (\<lambda>m. m (objects s)) registered)
                (map Stored (suggestions s))) = Inl err \<longrightarrow>
      suggestionsToShow s =
        slice0 (snd (sortAndFilterSuggestionsOn (objects s)
                       (applyMiddlewares (map (\<lambda>m. m (objects s)) rest)
                          (applyMiddlewares (map (\<lambda>m. m (objects s)) registered)
                             (map Stored (suggestions s))))
                       (toLowerCase (getTriggerQuery s)) (minScore s)))
          (maxSuggestions s))"
  by (simp add: applyMiddlewares_append showDropdown_middlewares)

theorem applyMiddlewares_throwing_stage_witness:
  "applyMiddlewares [\<lambda>xs. Inr (rev xs), \<lambda>xs. Inl (Thrown ''boom''), \<lambda>xs. Inr (tl xs)]
     [\<lparr>display = ''Alice'', key = ''a'', matchScore = None\<rparr>,
      \<lparr>display = ''Bob'', key = ''b'', matchScore = None\<rparr>,
      \<lparr>display = ''Carol'', key = ''c'', matchScore = None\<rparr>]
   = [\<lparr>display = ''Bob'', key = ''b'', matchScore = None\<rparr>,
      \<lparr>display = ''Alice'', key = ''a'', matchScore = None\<rparr>]
   \<and> suggestionsToShow
       (use (\<lambda>store xs. Inr (tl xs)) (use (\<lambda>store xs. Inl (Thrown ''boom''))
         (use (\<lambda>store xs. Inr (rev xs))
           (holding [\<lparr>display = ''Alice'', key = ''a'', matchScore = None\<rparr>,
                     \<lparr>display = ''Bob'', key = ''b'', matchScore = None\<rparr>,
                     \<lparr>display = ''Carol'', key = ''c'', matchScore = None\<rparr>]
              (onTextarea (caretAt ''@'' 1) noOptions)))))
   = [Stored 1, Stored 0]"
proof -
  let ?cs = "[\<lparr>display = ''Alice'', key = ''a'', matchScore = None\<rparr>,
      \<lparr>display = ''Bob'', key = ''b'', matchScore = None\<rparr>,
      \<lparr>display = ''Carol'', key = ''c'', matchScore = None\<rparr>]"
  let ?m1 = "\<lambda>xs :: SuggestionItem list. Inr (rev xs) :: error + SuggestionItem list"
  let ?m2 = "\<lambda>xs :: SuggestionItem list. Inl (Thrown ''boom'') :: error + SuggestionItem list"
  let ?m3 = "\<lambda>xs :: SuggestionItem list. Inr (tl xs) :: error + SuggestionItem list"
  let ?r1 = "\<lambda>(store :: objRef \<Rightarrow> SuggestionItem) xs :: candidate list.
               Inr (rev xs) :: error + candidate list"
  let ?r2 = "\<lambda>(store :: objRef \<Rightarrow> SuggestionItem) xs :: candidate list.
               Inl (Thrown ''boom'') :: error + candidate list"
  let ?r3 = "\<lambda>(store :: objRef \<Rightarrow> SuggestionItem) xs :: candidate list.
               Inr (tl xs) :: error + candidate list"
  let ?s = "use ?r3 (use ?r2 (use ?r1 (holding ?cs (onTextarea (caretAt ''@'' 1) noOptions))))"
  have s: "middlewares ?s = [?r1] @ ?r2 # [?r3]" "suggestions ?s = [0, 1, 2]"
    "maxSuggestions ?s = 5" "minScore ?s = 0"
    by (simp_all add: use_def holding_def onTextarea_def constructor_def noOptions_def
        upt_rec)
  have q: "getTriggerQuery ?s = []"
    by (simp add: getTriggerQuery_def getQueryForInput_def use_def holding_def
        onTextarea_def constructor_def noOptions_def caretAt_def lastIndexOf_def
        startsWith_def substring_def)
  from applyMiddlewares_throwing_stage[where earlier = "[?m1]" and middleware = ?m2
      and later = "[?m3]" and err = "Thrown ''boom''" and candidates = ?cs
      and s = ?s and registered = "[]" and thrower = ?r2 and rest = "[]"]
  have 1: "applyMiddlewares [?m1, ?m2, ?m3] ?cs
      = [\<lparr>display = ''Bob'', key = ''b'', matchScore = None\<rparr>,
         \<lparr>display = ''Alice'', key = ''a'', matchScore = None\<rparr>]"
    by simp
  from applyMiddlewares_throwing_stage[where s = ?s and registered = "[?r1]"
      and thrower = ?r2 and rest = "[?r3]" and err = "Thrown ''boom''"
      and earlier = "[]" and middleware = ?m2 and later = "[]" and candidates = "[]"] s(1)
  have "suggestionsToShow ?s =
        slice0 (snd (sortAndFilterSuggestionsOn (objects ?s)
                       (applyMiddlewares (map (\<lambda>m. m (objects ?s)) [?r3])
                          (applyMiddlewares (map (\<lambda>m. m (objects ?s)) [?r1])
                             (map Stored (suggestions ?s))))
                       (toLowerCase (getTriggerQuery ?s)) (minScore ?s)))
          (maxSuggestions ?s)"
    by simp
  then have 2: "suggestionsToShow ?s = [Stored 1, Stored 0]"
    unfolding s q by (simp add: toLowerCase_def sortAndFilterSuggestionsOn_def slice0_def)
  from 1 2 show ?thesis by blast
qed


lemma map_insort_key:
  "map f (insort_key (\<lambda>x. k (f x)) a xs) = insort_key k (f a) (map f xs)"
  by (induction xs) simp_all

lemma map_sort_key: "map f (sort_key (\<lambda>x. k (f x)) xs) = sort_key k (map f xs)"
  by (induction xs) (simp_all add: map_insort_key)

lemma sortAndFilterSuggestionsOn_store:
  "fst (sortAndFilterSuggestionsOn store ws query t) r =
     (if query \<noteq> [] \<and> Stored r \<in> set ws then withScore query (store r) else store r)"
  by (simp add: sortAndFilterSuggestionsOn_def Let_def withScore_def)

text \<open>
  The two models of \<^verbatim>\<open>sortAndFilterSuggestions\<close> agree: the contents of the array
  returned on objects are the array returned on contents.
\<close>

lemma sortAndFilterSuggestionsOn_values:
  "map (valueOf (fst (sortAndFilterSuggestionsOn store ws query t)))
       (snd (sortAndFilterSuggestionsOn store ws query t))
   = snd (sortAndFilterSuggestions (map (valueOf store) ws) query t)"
proof (cases "query = []")
  case True
  then show ?thesis by (simp add: sortAndFilterSuggestionsOn_def sortAndFilterSuggestions_def)
next
  case False
  define scoredStore where "scoredStore = fst (sortAndFilterSuggestionsOn store ws query t)"
  define attach where "attach = (\<lambda>c. case c of
      Stored r \<Rightarrow> Stored r
    | Fresh v \<Rightarrow> Fresh (v\<lparr>matchScore := Some (getMatchScore (key v) query)\<rparr>))"
  have st: "scoredStore r =
      (if Stored r \<in> set ws then withScore query (store r) else store r)" for r
    using False by (simp add: scoredStore_def sortAndFilterSuggestionsOn_store)
  have out: "snd (sortAndFilterSuggestionsOn store ws query t) =
      sort_key (\<lambda>c. sortKey (valueOf scoredStore c))
        (filter (\<lambda>c. scoreAtLeast t (valueOf scoredStore c)) (map attach ws))"
    using False
    by (simp add: sortAndFilterSuggestionsOn_def Let_def scoredStore_def attach_def)
  have val: "valueOf scoredStore (attach c) = withScore query (valueOf store c)"
    if "c \<in> set ws" for c
  proof (cases c)
    case (Stored r)
    with that show ?thesis by (simp add: attach_def valueOf_def st)
  next
    case (Fresh v)
    then show ?thesis by (simp add: attach_def valueOf_def withScore_def)
  qed
  then have scored: "map (valueOf scoredStore) (map attach ws)
      = map (withScore query) (map (valueOf store) ws)"
    by simp
  have "map (valueOf scoredStore) (snd (sortAndFilterSuggestionsOn store ws query t))
      = sort_key sortKey (filter (scoreAtLeast t) (map (valueOf scoredStore) (map attach ws)))"
    unfolding out by (simp only: map_sort_key filter_map comp_def)
  also have "\<dots> = snd (sortAndFilterSuggestions (map (valueOf store) ws) query t)"
    using sortAndFilterSuggestions_nonempty[OF False, of "map (valueOf store) ws" t]
    by (simp only: scored snd_conv)
  finally show ?thesis by (simp only: scoredStore_def)
qed

lemma showDropdown_hidden:
  assumes "suggestionsToShow s = []"
  shows "showDropdown position lineHeight s =
           hideDropdown (s\<lparr>objects := fst (rankedCandidates s)\<rparr>)"
proof (cases "rankedCandidates s")
  case (Pair scoredStore toShow)
  with assms have "toShow = []" by (simp add: suggestionsToShow_def)
  with Pair show ?thesis by (simp add: showDropdown_def)
qed

text \<open>
  C8: when the pipeline (clone, middlewares, score and filter, cut to \<open>maxSuggestions\<close>)
  gives the empty list, \<open>showDropdown\<close> hides the dropdown and renders nothing: the
  dropdown is not displayed and its items and position are as they were. Apart from the
  display, the state differs from the one before only in the objects, where the scoring
  engine has written scores: the candidate set and the key and display text of every
  object are the same.
\<close>

theorem showDropdown_empty_hides:
  assumes "suggestionsToShow s = []"
  shows "styleDisplay (dropdown (showDropdown position lineHeight s)) = DisplayNone
    \<and> items (dropdown (showDropdown position lineHeight s)) = items (dropdown s)
    \<and> styleTop (dropdown (showDropdown position lineHeight s)) = styleTop (dropdown s)
    \<and> styleLeft (dropdown (showDropdown position lineHeight s)) = styleLeft (dropdown s)
    \<and> showDropdown position lineHeight s
        = hideDropdown (s\<lparr>objects := objects (showDropdown position lineHeight s)\<rparr>)
    \<and> (\<forall>r. key (objects (showDropdown position lineHeight s) r) = key (objects s r)
           \<and> display (objects (showDropdown position lineHeight s) r) = display (objects s r))"
proof -
  note h = showDropdown_hidden[OF assms, of position lineHeight]
  have ob: "objects (showDropdown position lineHeight s) = fst (rankedCandidates s)"
    by (simp add: h hideDropdown_def)
  have kd: "key (fst (rankedCandidates s) r) = key (objects s r)
      \<and> display (fst (rankedCandidates s) r) = display (objects s r)" for r
    by (simp add: rankedCandidates_eq sortAndFilterSuggestionsOn_store withScore_def)
  show ?thesis
    unfolding ob using kd by (simp add: h hideDropdown_def)
qed


theorem showDropdown_empty_hides_witness:
  "styleDisplay (dropdown
     (showDropdown \<lparr>top_px = 10, left_px = 20\<rparr> 16
        (holding [\<lparr>display = ''Bob'', key = ''Bob'', matchScore = None\<rparr>]
           (onTextarea (caretAt ''@b'' 2) noOptions)))) = DisplayBlock
   \<and> items (dropdown
     (showDropdown \<lparr>top_px = 10, left_px = 20\<rparr> 16
        (holding [\<lparr>display = ''Bob'', key = ''Bob'', matchScore = None\<rparr>]
           (onTextarea (caretAt ''@b'' 2) noOptions)))) = [''Bob'']
   \<and> styleDisplay (dropdown
     (showDropdown \<lparr>top_px = 10, left_px = 20\<rparr> 16
        (removeSuggestion ''Bob''
           (showDropdown \<lparr>top_px = 10, left_px = 20\<rparr> 16
              (holding [\<lparr>display = ''Bob'', key = ''Bob'', matchScore = None\<rparr>]
                 (onTextarea (caretAt ''@b'' 2) noOptions)))))) = DisplayNone
   \<and> items (dropdown
     (showDropdown \<lparr>top_px = 10, left_px = 20\<rparr> 16
        (removeSuggestion ''Bob''
           (showDropdown \<lparr>top_px = 10, left_px = 20\<rparr> 16
              (holding [\<lparr>display = ''Bob'', key = ''Bob'', matchScore = None\<rparr>]
                 (onTextarea (caretAt ''@b'' 2) noOptions)))))) = [''Bob'']"
proof -
  let ?p = "\<lparr>top_px = 10, left_px = 20\<rparr>"
  let ?s1 = "holding [\<lparr>display = ''Bob'', key = ''Bob'', matchScore = None\<rparr>]
           (onTextarea (caretAt ''@b'' 2) noOptions)"
  let ?s2 = "showDropdown ?p 16 ?s1"
  let ?s3 = "removeSuggestion ''Bob'' ?s2"
  have s1: "suggestions ?s1 = [0]" "middlewares ?s1 = []" "maxSuggestions ?s1 = 5"
    "minScore ?s1 = 0" "objects ?s1 0 = \<lparr>display = ''Bob'', key = ''Bob'', matchScore = None\<rparr>"
    by (simp_all add: holding_def onTextarea_def constructor_def noOptions_def)
  have q: "getTriggerQuery ?s1 = ''b''"
    by (simp add: getTriggerQuery_def getQueryForInput_def holding_def onTextarea_def
        constructor_def noOptions_def caretAt_def lastIndexOf_def startsWith_def
        substring_def eval_nat_numeral)
  have lc: "toLowerCase ''b'' = ''b''" by code_simp
  have sc: "getMatchScore ''Bob'' ''b'' = 1" by code_simp
  have r: "rankedCandidates ?s1 =
      (fst (sortAndFilterSuggestionsOn (objects ?s1) [Stored 0] ''b'' 0), [Stored 0])"
    unfolding rankedCandidates_eq s1 q lc
    by (simp add: sortAndFilterSuggestionsOn_def s1 sc scoreAtLeast_def valueOf_def
        slice0_def)
  have o: "fst (sortAndFilterSuggestionsOn (objects ?s1) [Stored 0] ''b'' 0) 0
      = \<lparr>display = ''Bob'', key = ''Bob'', matchScore = Some 1\<rparr>"
    by (simp add: sortAndFilterSuggestionsOn_store withScore_def s1 sc)
  have s2: "dropdown ?s2 = \<lparr>styleDisplay = DisplayBlock, styleTop = 26, styleLeft = 25,
                             items = [''Bob'']\<rparr>"
    "suggestions ?s2 = [0]" "middlewares ?s2 = []" "key (objects ?s2 0) = ''Bob''"
    unfolding showDropdown_def r by (simp_all add: valueOf_def o s1)
  have s3: "suggestions ?s3 = []" "middlewares ?s3 = []" "dropdown ?s3 = dropdown ?s2"
    by (simp_all add: removeSuggestion_def s2)
  have h: "suggestionsToShow ?s3 = []"
    unfolding showDropdown_middlewares s3
    by (simp add: sortAndFilterSuggestionsOn_def slice0_def)
  from showDropdown_empty_hides[OF h, of ?p 16]
  have "styleDisplay (dropdown (showDropdown ?p 16 ?s3)) = DisplayNone"
    and "items (dropdown (showDropdown ?p 16 ?s3)) = items (dropdown ?s3)"
    by blast+
  with s2(1) s3(3) show ?thesis by simp
qed

section \<open>Trigger detection, query extraction and splicing\<close>

lemma isLastIndexUpTo_iff: "isLastIndexUpTo s t p i \<longleftrightarrow> lastIndexOf s t p = Some i"
  by (auto simp: isLastIndexUpTo_def lastIndexOf_Some)

lemma noOccurrenceUpTo_iff: "noOccurrenceUpTo s t p \<longleftrightarrow> lastIndexOf s t p = None"
  by (auto simp: noOccurrenceUpTo_def lastIndexOf_None)

lemma substring_0: "substring s 0 n = take n s"
  by (simp add: substring_def Let_def min_def)

lemma finalToken_eq: "finalToken text = last (split text (CHR '' ''))"
  by (simp add: finalToken_def last_split)

lemma indexOf_char_None: "indexOf s [c] = None \<longleftrightarrow> c \<notin> set s"
  by (induction s) (auto simp: startsWith_def)

lemma normalizeNewlines_free: "CHR 0x0D \<notin> set (normalizeNewlines s)"
  by (induction s) auto

lemma normalizeNewlines_append:
  "CHR 0x0D \<notin> set pre \<Longrightarrow> normalizeNewlines (pre @ rest) = pre @ normalizeNewlines rest"
  by (induction pre) auto

lemma normalizeNewlines_id: "normalizeNewlines s = s \<longleftrightarrow> CHR 0x0D \<notin> set s"
proof
  assume "normalizeNewlines s = s"
  then show "CHR 0x0D \<notin> set s" by (metis normalizeNewlines_free)
next
  assume "CHR 0x0D \<notin> set s"
  then show "normalizeNewlines s = s"
    using normalizeNewlines_append[of s "[]"] by simp
qed

lemma stripNewlines_append:
  "stripNewlines (pre @ rest) = stripNewlines pre @ stripNewlines rest"
  by (simp add: stripNewlines_def)

lemma stripNewlines_id:
  "stripNewlines s = s \<longleftrightarrow> CHR 0x0D \<notin> set s \<and> CHR 0x0A \<notin> set s"
  by (auto simp: stripNewlines_def filter_id_conv)

lemma storedVerbatim_iff:
  "k \<noteq> UrlInput \<Longrightarrow>
   storedVerbatim k t \<longleftrightarrow> CHR 0x0D \<notin> set t \<and> (k = TextInput \<longrightarrow> CHR 0x0A \<notin> set t)"
  by (cases k) (auto simp: storedVerbatim_def normalizeNewlines_id stripNewlines_id)

lemma sanitize_keeps_prefix:
  assumes "k \<noteq> UrlInput" "storedVerbatim k pre"
  shows "sanitize k (pre @ rest) = pre @ sanitize k rest"
proof (cases k)
  case TextAreaControl
  with assms show ?thesis by (simp add: storedVerbatim_iff normalizeNewlines_append)
next
  case TextInput
  with assms(2) have "stripNewlines pre = pre" by (simp add: storedVerbatim_def)
  with TextInput show ?thesis by (simp add: stripNewlines_append)
next
  case UrlInput
  with assms show ?thesis by simp
qed

lemma setSelectionRange_setValue:
  "setSelectionRange n n (setValue v ta) =
     ta\<lparr>inputValue := sanitize (control ta) v,
        selectionStart := min n (length (sanitize (control ta) v)),
        selectionEnd := min n (length (sanitize (control ta) v))\<rparr>"
  by (cases ta) (simp add: setSelectionRange_def setValue_def Let_def)

lemma insertTagForTextarea_found:
  assumes "lastIndexOf (inputValue ta) (triggerChar s) (selectionStart ta) = Some i"
  shows "insertTagForTextarea s X ta =
     setSelectionRange
       (i + length (if keepTrigger s then triggerChar s else []) + length X + 1)
       (i + length (if keepTrigger s then triggerChar s else []) + length X + 1)
       (setValue (take i (inputValue ta) @ (if keepTrigger s then triggerChar s else [])
                    @ X @ '' '' @ drop (selectionEnd ta) (inputValue ta)) ta)"
proof -
  from assms have "i \<le> length (inputValue ta)"
    by (simp add: lastIndexOf_Some occursAt_def)
  then have len: "length (take i (inputValue ta)) = i" by simp
  show ?thesis
    using assms len by (simp add: insertTagForTextarea_def Let_def substring_0)
qed

text \<open>
  C3, as amended: in a text control with the selection from \<open>start\<close> to \<open>end\<close>, when \<open>i\<close>
  is the last index at or before \<open>start\<close> at which the trigger occurs, inserting the tag
  \<open>X\<close> assigns the text \<open>take i v @ triggerPart @ X @ '' '' @ drop end v\<close> to the control,
  where \<open>triggerPart\<close> is the trigger if \<open>keepTrigger\<close> is set and empty otherwise, and
  asks for the collapsed caret at offset \<open>i + length triggerPart + length X + 1\<close>.
  Whenever the control stores that text as it is, it is the new text, and the caret is at
  that offset, just after the inserted space. A textarea or an input of type text,
  search, tel or password stores it as it is when the text it holds, the tag and the
  trigger part are free of the line breaks it changes (CR; in an input LF as well).
\<close>

theorem insertTagForTextarea_splice:
  assumes "isLastIndexUpTo (inputValue ta) (triggerChar s) (selectionStart ta) i"
  shows "insertTagForTextarea s X ta =
     setSelectionRange
       (i + length (if keepTrigger s then triggerChar s else []) + length X + 1)
       (i + length (if keepTrigger s then triggerChar s else []) + length X + 1)
       (setValue (take i (inputValue ta) @ (if keepTrigger s then triggerChar s else [])
                    @ X @ '' '' @ drop (selectionEnd ta) (inputValue ta)) ta)
   \<and> (storedVerbatim (control ta)
          (take i (inputValue ta) @ (if keepTrigger s then triggerChar s else [])
             @ X @ '' '' @ drop (selectionEnd ta) (inputValue ta)) \<longrightarrow>
      insertTagForTextarea s X ta =
        ta\<lparr>inputValue := take i (inputValue ta) @ (if keepTrigger s then triggerChar s else [])
                     @ X @ '' '' @ drop (selectionEnd ta) (inputValue ta),
           selectionStart :=
             i + length (if keepTrigger s then triggerChar s else []) + length X + 1,
           selectionEnd :=
             i + length (if keepTrigger s then triggerChar s else []) + length X + 1\<rparr>)
   \<and> (control ta \<noteq> UrlInput
        \<and> storedVerbatim (control ta) (inputValue ta)
        \<and> storedVerbatim (control ta) (if keepTrigger s then triggerChar s else [])
        \<and> storedVerbatim (control ta) X \<longrightarrow>
      storedVerbatim (control ta)
        (take i (inputValue ta) @ (if keepTrigger s then triggerChar s else [])
           @ X @ '' '' @ drop (selectionEnd ta) (inputValue ta)))"
proof (intro conjI impI)
  let ?tp = "if keepTrigger s then triggerChar s else []"
  let ?new = "take i (inputValue ta) @ ?tp @ X @ '' '' @ drop (selectionEnd ta) (inputValue ta)"
  let ?n = "i + length ?tp + length X + 1"
  from assms have li: "lastIndexOf (inputValue ta) (triggerChar s) (selectionStart ta) = Some i"
    by (simp add: isLastIndexUpTo_iff)
  then show found: "insertTagForTextarea s X ta = setSelectionRange ?n ?n (setValue ?new ta)"
    by (rule insertTagForTextarea_found)
  show "insertTagForTextarea s X ta =
        ta\<lparr>inputValue := ?new, selectionStart := ?n, selectionEnd := ?n\<rparr>"
    if "storedVerbatim (control ta) ?new"
  proof -
    from that have san: "sanitize (control ta) ?new = ?new" by (simp add: storedVerbatim_def)
    from assms have "i \<le> length (inputValue ta)"
      by (simp add: isLastIndexUpTo_def occursAt_def)
    then have "?n \<le> length ?new" by simp
    then have "min ?n (length ?new) = ?n" by simp
    with san found show ?thesis by (simp only: setSelectionRange_setValue)
  qed
  show "storedVerbatim (control ta) ?new"
    if "control ta \<noteq> UrlInput
        \<and> storedVerbatim (control ta) (inputValue ta)
        \<and> storedVerbatim (control ta) ?tp
        \<and> storedVerbatim (control ta) X"
    using that by (auto simp: storedVerbatim_iff dest: in_set_takeD in_set_dropD)
qed

theorem insertTagForTextarea_splice_witness:
  "target (insertTag ''Alice'' (onTextarea (caretAt ''hello @al'' 9) noOptions))
     = InputTarget (caretAt ''hello Alice '' 12)
   \<and> target (insertTag ''Alice''
        (onTextarea (caretAt ''hello @al'' 9) (noOptions\<lparr>optKeepTrigger := Some True\<rparr>)))
     = InputTarget (caretAt ''hello @Alice '' 13)"
proof -
  let ?ta = "caretAt ''hello @al'' 9"
  let ?drop = "onTextarea ?ta noOptions"
  let ?keep = "onTextarea ?ta (noOptions\<lparr>optKeepTrigger := Some True\<rparr>)"
  have f: "target ?drop = InputTarget ?ta" "target ?keep = InputTarget ?ta"
    "keepTrigger ?drop = False" "keepTrigger ?keep = True"
    "triggerChar ?drop = ''@''" "triggerChar ?keep = ''@''"
    by (simp_all add: onTextarea_def constructor_def noOptions_def)
  have v: "inputValue ?ta = ''hello @al''" "selectionStart ?ta = 9" "selectionEnd ?ta = 9"
    "control ?ta = TextAreaControl"
    by (simp_all add: caretAt_def)
  have "isLastIndexUpTo ''hello @al'' ''@'' 9 6"
    by (simp add: isLastIndexUpTo_def occursAt_def greaterThanAtMost_upt)
  then have 1: "isLastIndexUpTo (inputValue ?ta) (triggerChar ?drop) (selectionStart ?ta) 6"
    and 2: "isLastIndexUpTo (inputValue ?ta) (triggerChar ?keep) (selectionStart ?ta) 6"
    by (simp_all only: f v)
  have sv: "TextAreaControl \<noteq> UrlInput"
    "storedVerbatim TextAreaControl ''hello @al''" "storedVerbatim TextAreaControl ''@''"
    "storedVerbatim TextAreaControl []" "storedVerbatim TextAreaControl ''Alice''"
    by (simp_all add: storedVerbatim_iff)
  note d = insertTagForTextarea_splice[OF 1, of "''Alice''", unfolded f v if_False]
  note k = insertTagForTextarea_splice[OF 2, of "''Alice''", unfolded f v if_True]
  from d sv have "storedVerbatim TextAreaControl
      (take 6 ''hello @al'' @ [] @ ''Alice'' @ '' '' @ drop 9 ''hello @al'')" by blast
  with d have a: "insertTagForTextarea ?drop ''Alice'' ?ta =
      ?ta\<lparr>inputValue := take 6 ''hello @al'' @ [] @ ''Alice'' @ '' '' @ drop 9 ''hello @al'',
          selectionStart := 6 + length ([] :: string) + length ''Alice'' + 1,
          selectionEnd := 6 + length ([] :: string) + length ''Alice'' + 1\<rparr>"
    by blast
  from k sv have "storedVerbatim TextAreaControl
      (take 6 ''hello @al'' @ ''@'' @ ''Alice'' @ '' '' @ drop 9 ''hello @al'')" by blast
  with k have b: "insertTagForTextarea ?keep ''Alice'' ?ta =
      ?ta\<lparr>inputValue := take 6 ''hello @al'' @ ''@'' @ ''Alice'' @ '' '' @ drop 9 ''hello @al'',
          selectionStart := 6 + length ''@'' + length ''Alice'' + 1,
          selectionEnd := 6 + length ''@'' + length ''Alice'' + 1\<rparr>"
    by blast
  from a have a': "insertTagForTextarea ?drop ''Alice'' ?ta = caretAt ''hello Alice '' 12"
    by (simp add: caretAt_def)
  from b have b': "insertTagForTextarea ?keep ''Alice'' ?ta = caretAt ''hello @Alice '' 13"
    by (simp add: caretAt_def)
  from a' b' show ?thesis by (simp add: insertTag_def f)
qed

text \<open>
  The claim as stated, for every tag, fails for a tag with a line break: in the textarea
  \<open>hello @al!\<close> with the caret before the exclamation mark, the tag \<open>Ali\<close> CR LF \<open>ce\<close> is
  stored with LF alone, one character shorter than the text assigned, and the caret,
  set from the lengths before the assignment, ends after the exclamation mark.
\<close>

theorem insertTagForTextarea_splice_counterexample:
  "isLastIndexUpTo ''hello @al!'' ''@'' 9 6
   \<and> insertTagForTextarea (onTextarea (caretAt ''hello @al!'' 9) noOptions)
        (''Ali'' @ [CHR 0x0D, CHR 0x0A] @ ''ce'') (caretAt ''hello @al!'' 9)
      = caretAt (''hello Ali'' @ [CHR 0x0A] @ ''ce !'') 14
   \<and> ''hello Ali'' @ [CHR 0x0A] @ ''ce !''
      \<noteq> take 6 ''hello @al!'' @ [] @ (''Ali'' @ [CHR 0x0D, CHR 0x0A] @ ''ce'') @ '' ''
          @ drop 9 ''hello @al!''
   \<and> length (''hello Ali'' @ [CHR 0x0A] @ ''ce !'') = 14"
proof -
  have 1: "isLastIndexUpTo ''hello @al!'' ''@'' 9 6"
    by (simp add: isLastIndexUpTo_def occursAt_def greaterThanAtMost_upt)
  have 2: "insertTagForTextarea (onTextarea (caretAt ''hello @al!'' 9) noOptions)
        (''Ali'' @ [CHR 0x0D, CHR 0x0A] @ ''ce'') (caretAt ''hello @al!'' 9)
      = caretAt (''hello Ali'' @ [CHR 0x0A] @ ''ce !'') 14"
    by (simp add: insertTagForTextarea_def setSelectionRange_def setValue_def
        onTextarea_def constructor_def caretAt_def noOptions_def lastIndexOf_def
        startsWith_def substring_def Let_def eval_nat_numeral)
  from 1 2 show ?thesis by simp
qed

lemma startsWith_prefix: "startsWith s t \<longleftrightarrow> prefix t s"
proof
  assume "startsWith s t"
  then have "s = t @ drop (length t) s"
    by (metis startsWith_def append_take_drop_id)
  then show "prefix t s" by (metis prefixI)
next
  assume "prefix t s"
  then show "startsWith s t" by (auto simp: prefix_def startsWith_def)
qed

text \<open>
  C4: \<open>isTriggerActive\<close> holds if and only if the final token of the text before the
  caret, taken after every non-breaking space is replaced by a space and the text is split
  at the spaces, starts with the trigger, and the extracted query contains no space.
\<close>

theorem isTriggerActive_iff:
  "isTriggerActive s \<longleftrightarrow>
     prefix (triggerChar s) (last (split (replaceNbsp (textBeforeCaret s)) (CHR '' '')))
     \<and> prefix (triggerChar s) (finalToken (replaceNbsp (textBeforeCaret s)))
     \<and> CHR '' '' \<notin> set (getTriggerQuery s)"
  by (simp add: isTriggerActive_def textBeforeCaret_def Let_def startsWith_prefix
      indexOf_char_None finalToken_eq)

theorem isTriggerActive_iff_witness:
  "\<not> isTriggerActive (onTextarea (caretAt ''@foo bar'' 8) noOptions)
   \<and> isTriggerActive (onTextarea (caretAt ''@foo bar'' 4) noOptions)
   \<and> \<not> isTriggerActive (onTextarea (caretAt [CHR ''@'', CHR ''f'', CHR 0xA0, CHR ''b''] 4) noOptions)"
proof -
  let ?e = "onTextarea (caretAt ''@foo bar'' 8) noOptions"
  let ?a = "onTextarea (caretAt ''@foo bar'' 4) noOptions"
  let ?n = "onTextarea (caretAt [CHR ''@'', CHR ''f'', CHR 0xA0, CHR ''b''] 4) noOptions"
  have tb: "textBeforeCaret ?e = ''@foo bar''" "textBeforeCaret ?a = ''@foo''"
    "textBeforeCaret ?n = [CHR ''@'', CHR ''f'', CHR 0xA0, CHR ''b'']"
    by (simp_all add: textBeforeCaret_def onTextarea_def constructor_def caretAt_def
        getTextBeforeCaretForInput_def substring_0)
  have tc: "triggerChar ?e = ''@''" "triggerChar ?a = ''@''" "triggerChar ?n = ''@''"
    by (simp_all add: onTextarea_def constructor_def noOptions_def)
  have q: "getTriggerQuery ?a = ''foo''"
    by (simp add: getTriggerQuery_def getQueryForInput_def onTextarea_def constructor_def
        caretAt_def noOptions_def lastIndexOf_def startsWith_def substring_def
        eval_nat_numeral)
  have 1: "\<not> isTriggerActive ?e"
    unfolding isTriggerActive_iff[of ?e] tb tc
    by (simp add: replaceNbsp_def finalToken_def)
  have 2: "isTriggerActive ?a"
    unfolding isTriggerActive_iff[of ?a] tb tc q
    by (simp add: replaceNbsp_def finalToken_def)
  have 3: "\<not> isTriggerActive ?n"
    unfolding isTriggerActive_iff[of ?n] tb tc
    by (simp add: replaceNbsp_def finalToken_def)
  from 1 2 3 show ?thesis by blast
qed

lemma getQueryForEditable_absent:
  assumes "selection s = Some (r # rs)" "caretText s r = Some content"
    "lastIndexOf content (triggerChar s) (startOffset r) = None"
  shows "getQueryForEditable s = []"
  using assms
  by (auto simp: getQueryForEditable_def caretText_def Let_def split: if_splits)

lemma insertTagForContentEditable_absent:
  assumes "insertionRange s = Some r" "caretText s r = Some content"
    "lastIndexOf content (triggerChar s) (startOffset r) = None"
  shows "insertTagForContentEditable X s =
           ((case savedRange s of None \<Rightarrow> s | Some saved \<Rightarrow> s\<lparr>selection := Some [saved]\<rparr>), None)"
proof (cases "savedRange s")
  case None
  with assms(1) obtain rs where sel: "selection s = Some (r # rs)"
    by (auto simp: insertionRange_def split: option.splits list.splits)
  with None assms(2,3) show ?thesis
    by (auto simp: insertTagForContentEditable_def caretText_def Let_def split: if_splits)
next
  case (Some saved)
  with assms(1) obtain rs where sel: "selection s = Some rs" and r: "saved = r"
    by (auto simp: insertionRange_def split: option.splits)
  with Some assms(2,3) show ?thesis
    by (auto simp: insertTagForContentEditable_def caretText_def Let_def split: if_splits)
qed

text \<open>
  C9: when the trigger does not occur at or before the caret in the text the operation
  reads, query extraction returns the empty query and tag insertion changes no text, in
  both text models, and nothing is thrown. In a text control the state after
  \<open>insertTag\<close> is the state before. In the editable model the text is that of the text
  node holding the caret (for an insertion, the caret of the saved range when there is
  one); \<open>insertTagForContentEditable\<close> ends without an exception and \<open>insertTag\<close>
  changes nothing but the selection, which it sets to the saved range.
\<close>

theorem trigger_absent_is_silent:
  "(target s = InputTarget ta
      \<and> noOccurrenceUpTo (inputValue ta) (triggerChar s) (selectionStart ta) \<longrightarrow>
        getQueryForInput s ta = [] \<and> getTriggerQuery s = []
        \<and> insertTagForTextarea s X ta = ta \<and> insertTag X s = s)
   \<and> (target s = EditableTarget \<and> selection s = Some (r # rs)
      \<and> caretText s r = Some content
      \<and> noOccurrenceUpTo content (triggerChar s) (startOffset r) \<longrightarrow>
        getQueryForEditable s = [] \<and> getTriggerQuery s = [])
   \<and> (target s = EditableTarget \<and> insertionRange s = Some r'
      \<and> caretText s r' = Some content'
      \<and> noOccurrenceUpTo content' (triggerChar s) (startOffset r') \<longrightarrow>
        snd (insertTagForContentEditable X s) = None
        \<and> insertTag X s = s\<lparr>selection := selection (insertTag X s)\<rparr>
        \<and> nodes (insertTag X s) = nodes s)"
proof (intro conjI impI)
  assume h: "target s = InputTarget ta
      \<and> noOccurrenceUpTo (inputValue ta) (triggerChar s) (selectionStart ta)"
  then have n: "lastIndexOf (inputValue ta) (triggerChar s) (selectionStart ta) = None"
    by (simp add: noOccurrenceUpTo_iff)
  then show q: "getQueryForInput s ta = []" by (simp add: getQueryForInput_def)
  with h show "getTriggerQuery s = []" by (simp add: getTriggerQuery_def)
  from n show i: "insertTagForTextarea s X ta = ta" by (simp add: insertTagForTextarea_def)
  with h show "insertTag X s = s" by (simp add: insertTag_def)
next
  assume h: "target s = EditableTarget \<and> selection s = Some (r # rs)
      \<and> caretText s r = Some content
      \<and> noOccurrenceUpTo content (triggerChar s) (startOffset r)"
  then have "lastIndexOf content (triggerChar s) (startOffset r) = None"
    by (simp add: noOccurrenceUpTo_iff)
  with h show q: "getQueryForEditable s = []"
    by (simp add: getQueryForEditable_absent)
  with h show "getTriggerQuery s = []" by (simp add: getTriggerQuery_def)
next
  assume h: "target s = EditableTarget \<and> insertionRange s = Some r'
      \<and> caretText s r' = Some content'
      \<and> noOccurrenceUpTo content' (triggerChar s) (startOffset r')"
  then have "lastIndexOf content' (triggerChar s) (startOffset r') = None"
    by (simp add: noOccurrenceUpTo_iff)
  with h have e: "insertTagForContentEditable X s =
           ((case savedRange s of None \<Rightarrow> s | Some saved \<Rightarrow> s\<lparr>selection := Some [saved]\<rparr>), None)"
    by (simp add: insertTagForContentEditable_absent)
  then show "snd (insertTagForContentEditable X s) = None" by simp
  from e h show "insertTag X s = s\<lparr>selection := selection (insertTag X s)\<rparr>"
    by (simp add: insertTag_def split: option.splits)
  from e h show "nodes (insertTag X s) = nodes s"
    by (simp add: insertTag_def split: option.splits)
qed


theorem trigger_absent_is_silent_witness:
  "getTriggerQuery (onTextarea (caretAt ''hello al'' 8) noOptions) = []
   \<and> insertTag ''Alice'' (onTextarea (caretAt ''hello al'' 8) noOptions)
       = onTextarea (caretAt ''hello al'' 8) noOptions
   \<and> getTriggerQuery (onEditable ''hello al'' 8 noOptions) = []
   \<and> snd (insertTagForContentEditable ''Alice'' (onEditable ''hello al'' 8 noOptions)) = None
   \<and> textContent (nodes (insertTag ''Alice'' (onEditable ''hello al'' 8 noOptions)) 1)
       = Some ''hello al''
   \<and> childNodes (nodes (insertTag ''Alice'' (onEditable ''hello al'' 8 noOptions)) 0) = [1]"
proof -
  let ?ta = "caretAt ''hello al'' 8"
  let ?s = "onTextarea ?ta noOptions"
  let ?e = "onEditable ''hello al'' 8 noOptions"
  let ?r = "\<lparr>startContainer = 1, startOffset = 8\<rparr>"
  have "lastIndexOf ''hello al'' ''@'' 8 = None" by code_simp
  then have no: "noOccurrenceUpTo ''hello al'' ''@'' 8"
    by (simp add: noOccurrenceUpTo_iff)
  have s: "target ?s = InputTarget ?ta" "triggerChar ?s = ''@''"
    "inputValue ?ta = ''hello al''" "selectionStart ?ta = 8"
    by (simp_all add: onTextarea_def constructor_def noOptions_def caretAt_def)
  have e: "target ?e = EditableTarget" "triggerChar ?e = ''@''"
    "selection ?e = Some [?r]" "insertionRange ?e = Some ?r"
    "caretText ?e ?r = Some ''hello al''" "startOffset ?r = 8"
    "textContent (nodes ?e 1) = Some ''hello al''" "childNodes (nodes ?e 0) = [1]"
    by (simp_all add: onEditable_def constructor_def noOptions_def insertionRange_def
        caretText_def detachedElement_def)
  from trigger_absent_is_silent[where s = ?s and ta = ?ta and X = "''Alice''"] no s
  have 1: "getTriggerQuery ?s = []" "insertTag ''Alice'' ?s = ?s"
    by simp_all
  from trigger_absent_is_silent[where s = ?e and r = ?r and rs = "[]" and r' = ?r
      and content = "''hello al''" and content' = "''hello al''" and X = "''Alice''"] no e
  have 2: "getTriggerQuery ?e = []"
    "snd (insertTagForContentEditable ''Alice'' ?e) = None"
    "nodes (insertTag ''Alice'' ?e) = nodes ?e"
    by simp_all
  from 1 2 e(7,8) show ?thesis by simp
qed



lemma occursAt_char: "occursAt v [c] j \<longleftrightarrow> j < length v \<and> v ! j = c"
proof (cases "j < length v")
  case True
  then have "drop j v = v ! j # drop (Suc j) v" by (simp add: Cons_nth_drop_Suc)
  with True show ?thesis by (simp add: occursAt_def)
next
  case False
  then show ?thesis by (auto simp: occursAt_def)
qed

lemma afterLast_free: "c \<notin> set (afterLast c text)"
  by (auto simp: afterLast_def dest: set_takeWhileD)

lemma rev_takeWhile_split:
  "xs = rev (dropWhile P (rev xs)) @ rev (takeWhile P (rev xs))"
proof -
  have "rev (rev (dropWhile P (rev xs)) @ rev (takeWhile P (rev xs)))
          = takeWhile P (rev xs) @ dropWhile P (rev xs)"
    by (simp only: rev_append rev_rev_ident)
  also have "\<dots> = rev xs" by simp
  finally have "rev (dropWhile P (rev xs)) @ rev (takeWhile P (rev xs)) = xs"
    by (simp only: rev_is_rev_conv)
  then show ?thesis by (rule sym)
qed

lemma last_occurrence_split:
  assumes "c \<in> set text"
  shows "text = beforeLast c text @ [c] @ afterLast c text"
proof -
  let ?P = "\<lambda>x. x \<noteq> c"
  define q where "q = afterLast c text"
  from assms have "dropWhile ?P (rev text) \<noteq> []"
    by (simp add: dropWhile_eq_Nil_conv)
  then obtain d rest where d: "dropWhile ?P (rev text) = d # rest"
    by (cases "dropWhile ?P (rev text)") auto
  then have dc: "d = c"
    using dropWhile_eq_Cons_conv[of ?P "rev text" d rest] by blast
  have "text = rev (dropWhile ?P (rev text)) @ q"
    unfolding q_def afterLast_def by (rule rev_takeWhile_split)
  then have "text = rev (d # rest) @ q" unfolding d .
  then have t: "text = rev rest @ [c] @ q" unfolding dc rev.simps append_assoc .
  have "beforeLast c text = take (length text - Suc (length q)) text"
    by (simp add: beforeLast_def q_def)
  also have "\<dots> = take (length (rev rest @ [c] @ q) - Suc (length q)) (rev rest @ [c] @ q)"
    using t by (rule arg_cong)
  also have "\<dots> = rev rest" by simp
  finally have b: "beforeLast c text = rev rest" .
  show ?thesis unfolding b q_def[symmetric] by (rule t)
qed

lemma finalToken_afterLast: "finalToken text = afterLast (CHR '' '') text"
  by (simp add: finalToken_def afterLast_def)

lemma count_list_afterLast: "count_list (afterLast d text) c \<le> count_list text c"
proof -
  have "count_list (rev (dropWhile (\<lambda>x. x \<noteq> d) (rev text)) @ afterLast d text) c
      = count_list text c"
    unfolding afterLast_def by (simp only: rev_takeWhile_split[symmetric])
  then show ?thesis by simp
qed

lemma count_list_replaceNbsp:
  "c \<noteq> CHR '' '' \<Longrightarrow> c \<noteq> CHR 0xA0 \<Longrightarrow> count_list (replaceNbsp xs) c = count_list xs c"
  by (induction xs) (auto simp: replaceNbsp_def)

lemma replaceNbsp_free: "CHR 0xA0 \<notin> set (replaceNbsp text)"
  by (auto simp: replaceNbsp_def)

lemma count_list_pos: "0 < count_list xs c \<Longrightarrow> c \<in> set xs"
  by (metis count_notin less_numeral_extra(3))

lemma triggers_in_final_token:
  assumes "2 \<le> count_list (finalToken (replaceNbsp xs)) c"
  shows "2 \<le> count_list xs c"
proof -
  let ?n = "replaceNbsp xs"
  from assms have two: "2 \<le> count_list (afterLast (CHR '' '') ?n) c"
    by (simp only: finalToken_afterLast)
  then have "0 < count_list (afterLast (CHR '' '') ?n) c" by linarith
  then have tok: "c \<in> set (afterLast (CHR '' '') ?n)" by (rule count_list_pos)
  have "CHR '' '' \<notin> set (afterLast (CHR '' '') ?n)" by (rule afterLast_free)
  with tok have sp: "c \<noteq> CHR '' ''" by blast
  have le: "count_list (afterLast (CHR '' '') ?n) c \<le> count_list ?n c"
    by (rule count_list_afterLast)
  with two have two': "2 \<le> count_list ?n c" by linarith
  then have "0 < count_list ?n c" by linarith
  then have "c \<in> set ?n" by (rule count_list_pos)
  moreover have "CHR 0xA0 \<notin> set ?n" by (rule replaceNbsp_free)
  ultimately have nb: "c \<noteq> CHR 0xA0" by blast
  from sp nb have "count_list ?n c = count_list xs c" by (rule count_list_replaceNbsp)
  with two' show ?thesis by linarith
qed


lemma last_trigger_before_caret:
  assumes tb: "take p v = pre @ [c] @ q" and q: "c \<notin> set q"
    and at: "\<not> occursAt v [c] p"
  shows "lastIndexOf v [c] p = Some (length pre)"
    and "substring v (length pre + 1) p = q"
    and "take (length pre) v = pre"
proof -
  have lt: "length (take p v) = length pre + 1 + length q"
    by (simp only: tb length_append) simp
  then have b: "length pre + 1 + length q = min p (length v)" by simp
  have pre: "take (length pre) v = pre"
  proof -
    have "take (length pre) (take p v) = pre" by (simp only: tb) simp
    moreover from b have "length pre \<le> p" by linarith
    ultimately show ?thesis by (simp add: min_def)
  qed
  have nth: "v ! j = (pre @ [c] @ q) ! j" if "j < min p (length v)" for j
  proof -
    from that have "take p v ! j = v ! j" by simp
    then show ?thesis by (simp only: tb)
  qed
  have occ: "occursAt v [c] (length pre)"
  proof -
    from b have "length pre < min p (length v)" by linarith
    from nth[OF this] have "v ! length pre = c" by simp
    moreover from b have "length pre < length v" by linarith
    ultimately show ?thesis by (simp add: occursAt_char)
  qed
  have later: "\<not> occursAt v [c] j" if "length pre < j \<and> j \<le> p" for j
  proof
    assume o: "occursAt v [c] j"
    then have j: "j < length v" "v ! j = c" by (simp_all add: occursAt_char)
    show False
    proof (cases "j < p")
      case True
      with j have jm: "j < min p (length v)" by simp
      from that jm b have "j - Suc (length pre) < length q" by linarith
      moreover from that have "(pre @ [c] @ q) ! j = q ! (j - Suc (length pre))"
        by (simp add: nth_append)
      ultimately have "(pre @ [c] @ q) ! j \<in> set q" by simp
      with nth[OF jm] j q show False by simp
    next
      case False
      with that have "j = p" by simp
      with o at show False by simp
    qed
  qed
  show "lastIndexOf v [c] p = Some (length pre)"
    using occ later b by (simp add: lastIndexOf_Some)
  show "take (length pre) v = pre" by (rule pre)
  show "substring v (length pre + 1) p = q"
  proof -
    have "drop (length pre + 1) (take p v) = q" by (simp only: tb) simp
    then have "take (p - (length pre + 1)) (drop (length pre + 1) v) = q"
      by (simp add: drop_take)
    moreover from b have "min (length pre + 1) (length v) = length pre + 1" by linarith
    moreover from b have "min (length pre + 1) (min p (length v)) = length pre + 1"
      "max (length pre + 1) (min p (length v)) = min p (length v)" by linarith+
    moreover have "take (min p (length v) - (length pre + 1)) (drop (length pre + 1) v)
        = take (p - (length pre + 1)) (drop (length pre + 1) v)"
      by (simp add: min_def)
    ultimately show ?thesis by (simp add: substring_def Let_def)
  qed
qed


text \<open>
  C10, as amended: in a text control whose trigger is one character, when the final token
  of the text before the caret holds the trigger more than once and the character after
  the caret, if any, is not the trigger (so whenever the caret is at the end of the text),
  the last trigger splits the text before the caret into what precedes it and what
  follows it: the query is exactly what follows it; \<open>insertTag\<close> assigns to the control
  what precedes it, an earlier trigger included, then the tag, with the trigger when
  \<open>keepTrigger\<close> is set, and a space in the place of the last trigger and what follows
  it up to the end of the selection. A textarea or an input of type text, search, tel or
  password keeps what precedes the last trigger in place, whatever the tag.
\<close>

theorem query_and_splice_anchor_on_last_trigger:
  assumes "target s = InputTarget ta"
    and "triggerChar s = [c]"
    and "2 \<le> count_list (finalToken (replaceNbsp (textBeforeCaret s))) c"
    and "\<not> occursAt (inputValue ta) [c] (selectionStart ta)"
  shows "textBeforeCaret s
           = beforeLast c (textBeforeCaret s) @ [c] @ afterLast c (textBeforeCaret s)
    \<and> c \<in> set (beforeLast c (textBeforeCaret s))
    \<and> c \<notin> set (afterLast c (textBeforeCaret s))
    \<and> getTriggerQuery s = afterLast c (textBeforeCaret s)
    \<and> insertTag X s = s\<lparr>target := InputTarget (insertTagForTextarea s X ta)\<rparr>
    \<and> insertTagForTextarea s X ta =
        setSelectionRange
          (length (beforeLast c (textBeforeCaret s))
             + length (if keepTrigger s then [c] else []) + length X + 1)
          (length (beforeLast c (textBeforeCaret s))
             + length (if keepTrigger s then [c] else []) + length X + 1)
          (setValue (beforeLast c (textBeforeCaret s)
                       @ (if keepTrigger s then [c] else []) @ X @ '' ''
                       @ drop (selectionEnd ta) (inputValue ta)) ta)
    \<and> (control ta \<noteq> UrlInput \<and> storedVerbatim (control ta) (inputValue ta) \<longrightarrow>
        take (length (beforeLast c (textBeforeCaret s)))
             (inputValue (insertTagForTextarea s X ta))
          = beforeLast c (textBeforeCaret s))"
proof -
  let ?v = "inputValue ta" and ?p = "selectionStart ta"
  let ?tp = "if keepTrigger s then [c] else []"
  define tb where "tb = textBeforeCaret s"
  define pre where "pre = beforeLast c tb"
  define q where "q = afterLast c tb"
  have tbv: "take ?p ?v = tb"
    using assms(1) by (simp add: tb_def textBeforeCaret_def getTextBeforeCaretForInput_def substring_0)
  from assms(3) have two: "2 \<le> count_list tb c"
    unfolding tb_def by (rule triggers_in_final_token)
  then have "0 < count_list tb c" by linarith
  then have "c \<in> set tb" by (rule count_list_pos)
  then have split: "tb = pre @ [c] @ q"
    unfolding pre_def q_def by (rule last_occurrence_split)
  have qfree: "c \<notin> set q" unfolding q_def by (rule afterLast_free)
  have "count_list tb c = count_list (pre @ [c] @ q) c" using split by (rule arg_cong)
  with qfree have "count_list tb c = count_list pre c + 1" by simp
  with two have "0 < count_list pre c" by linarith
  then have inpre: "c \<in> set pre" by (rule count_list_pos)
  from split tbv have tk: "take ?p ?v = pre @ [c] @ q" by simp
  note anchor = last_trigger_before_caret[OF tk qfree assms(4)]
  from anchor(1) have li: "lastIndexOf ?v (triggerChar s) ?p = Some (length pre)"
    by (simp add: assms(2))
  have query: "getTriggerQuery s = q"
    using assms(1) li anchor(2)
    by (simp add: getTriggerQuery_def getQueryForInput_def Let_def)
  have tag: "insertTag X s = s\<lparr>target := InputTarget (insertTagForTextarea s X ta)\<rparr>"
    using assms(1) by (simp add: insertTag_def)
  have ins: "insertTagForTextarea s X ta =
      setSelectionRange (length pre + length ?tp + length X + 1)
        (length pre + length ?tp + length X + 1)
        (setValue (pre @ ?tp @ X @ '' '' @ drop (selectionEnd ta) ?v) ta)"
    using insertTagForTextarea_found[OF li, of X] anchor(3) by (simp add: assms(2))
  have keep: "take (length pre) (inputValue (insertTagForTextarea s X ta)) = pre"
    if k: "control ta \<noteq> UrlInput \<and> storedVerbatim (control ta) ?v"
  proof -
    from anchor(3) have "set pre \<subseteq> set ?v" by (metis set_take_subset)
    with k have "storedVerbatim (control ta) pre" by (auto simp: storedVerbatim_iff)
    with k have "sanitize (control ta) (pre @ ?tp @ X @ '' '' @ drop (selectionEnd ta) ?v)
        = pre @ sanitize (control ta) (?tp @ X @ '' '' @ drop (selectionEnd ta) ?v)"
      by (intro sanitize_keeps_prefix) simp_all
    then show ?thesis by (simp only: ins setSelectionRange_setValue) simp
  qed
  from split inpre qfree query tag ins keep show ?thesis
    unfolding tb_def pre_def q_def by blast
qed

theorem query_and_splice_anchor_on_last_trigger_witness:
  "getTriggerQuery (onTextarea (caretAt ''@a@b'' 4) noOptions) = ''b''
   \<and> target (insertTag ''Alice'' (onTextarea (caretAt ''@a@b'' 4) noOptions))
       = InputTarget (caretAt ''@aAlice '' 8)
   \<and> take 2 (inputValue (insertTagForTextarea (onTextarea (caretAt ''@a@b'' 4) noOptions)
                ''Alice'' (caretAt ''@a@b'' 4))) = ''@a''"
proof -
  let ?ta = "caretAt ''@a@b'' 4"
  let ?s = "onTextarea ?ta noOptions"
  have s: "target ?s = InputTarget ?ta" "triggerChar ?s = ''@''" "keepTrigger ?s = False"
    by (simp_all add: onTextarea_def constructor_def noOptions_def)
  have tb: "textBeforeCaret ?s = ''@a@b''"
    by (simp add: textBeforeCaret_def onTextarea_def constructor_def
        getTextBeforeCaretForInput_def substring_0 caretAt_def)
  have tok: "2 \<le> count_list (finalToken (replaceNbsp (textBeforeCaret ?s))) CHR ''@''"
    unfolding tb by (simp add: replaceNbsp_def finalToken_def)
  have at: "\<not> occursAt (inputValue ?ta) ''@'' (selectionStart ?ta)"
    by (simp add: occursAt_def caretAt_def)
  have parts: "beforeLast CHR ''@'' ''@a@b'' = ''@a''" "afterLast CHR ''@'' ''@a@b'' = ''b''"
    by (simp_all add: beforeLast_def afterLast_def)
  have k: "control ?ta \<noteq> UrlInput" "storedVerbatim (control ?ta) (inputValue ?ta)"
    by (simp_all add: caretAt_def storedVerbatim_iff)
  note inst = query_and_splice_anchor_on_last_trigger[OF s(1) s(2) tok at, of "''Alice''",
      unfolded tb parts s(3)]
  from inst have 1: "getTriggerQuery ?s = ''b''" by blast
  from inst have "insertTagForTextarea ?s ''Alice'' ?ta =
      setSelectionRange (length ''@a'' + length ([] :: string) + length ''Alice'' + 1)
        (length ''@a'' + length ([] :: string) + length ''Alice'' + 1)
        (setValue (''@a'' @ [] @ ''Alice'' @ '' '' @ drop (selectionEnd ?ta) (inputValue ?ta)) ?ta)"
    by simp
  then have i: "insertTagForTextarea ?s ''Alice'' ?ta = caretAt ''@aAlice '' 8"
    by (simp add: setSelectionRange_setValue) (simp add: caretAt_def startsWith_def)
  from inst have "insertTag ''Alice'' ?s
      = ?s\<lparr>target := InputTarget (insertTagForTextarea ?s ''Alice'' ?ta)\<rparr>" by blast
  with i have 2: "target (insertTag ''Alice'' ?s) = InputTarget (caretAt ''@aAlice '' 8)"
    by simp
  from inst k have 3: "take (length ''@a'') (inputValue (insertTagForTextarea ?s ''Alice'' ?ta))
      = ''@a''" by blast
  have "length ''@a'' = 2" by simp
  with 3 have 4: "take 2 (inputValue (insertTagForTextarea ?s ''Alice'' ?ta)) = ''@a''"
    by (simp only:)
  from 1 2 4 show ?thesis by blast
qed

text \<open>
  The claim as stated, for every caret, fails when the character after the caret is the
  trigger. \<open>lastIndexOf\<close> also finds an occurrence that starts at the caret offset
  itself: in \<open>@a@b@\<close> with the caret before the last character, the final token of the
  text before the caret is \<open>@a@b\<close>, and the text after its last trigger is \<open>b\<close>; the
  anchor is the character after the caret, the arguments of \<open>substring\<close> are in
  descending order and are swapped, so that the query is the trigger itself, and the tag
  is inserted at the caret, the span \<open>@b\<close> left as it is.
\<close>

theorem query_and_splice_anchor_on_last_trigger_counterexample:
  "target (onTextarea (caretAt ''@a@b@'' 4) noOptions) = InputTarget (caretAt ''@a@b@'' 4)
   \<and> triggerChar (onTextarea (caretAt ''@a@b@'' 4) noOptions) = ''@''
   \<and> 2 \<le> count_list
        (finalToken (replaceNbsp (textBeforeCaret (onTextarea (caretAt ''@a@b@'' 4) noOptions))))
        CHR ''@''
   \<and> afterLast CHR ''@'' (textBeforeCaret (onTextarea (caretAt ''@a@b@'' 4) noOptions)) = ''b''
   \<and> getTriggerQuery (onTextarea (caretAt ''@a@b@'' 4) noOptions) = ''@''
   \<and> target (insertTag ''Alice'' (onTextarea (caretAt ''@a@b@'' 4) noOptions))
       = InputTarget (caretAt ''@a@bAlice @'' 10)"
  by (simp add: getTriggerQuery_def getQueryForInput_def insertTag_def insertTagForTextarea_def
      setSelectionRange_def setValue_def textBeforeCaret_def getTextBeforeCaretForInput_def
      replaceNbsp_def finalToken_def afterLast_def
      onTextarea_def constructor_def caretAt_def noOptions_def
      lastIndexOf_def startsWith_def substring_def Let_def eval_nat_numeral)

section \<open>The model on further examples\<close>

text \<open>
  Scenario A of the specification: the text \<open>hello @al\<close> with the caret at its end gives
  the query \<open>al\<close>, and the trigger is active.
\<close>

lemma scenario_query_extraction:
  "getTriggerQuery (onTextarea (caretAt ''hello @al'' 9) noOptions) = ''al''
   \<and> isTriggerActive (onTextarea (caretAt ''hello @al'' 9) noOptions)
   \<and> getTriggerQuery (onEditable ''hello @al'' 9 noOptions) = ''al''
   \<and> isTriggerActive (onEditable ''hello @al'' 9 noOptions)"
  by (simp add: getTriggerQuery_def getQueryForInput_def getQueryForEditable_def
      isTriggerActive_def getTextBeforeCaretForInput_def getTextBeforeCaretForEditable_def
      onTextarea_def onEditable_def constructor_def caretAt_def noOptions_def
      lastIndexOf_def startsWith_def substring_def replaceNbsp_def Let_def
      eval_nat_numeral)

text \<open>
  The editable model with the trigger present: the text node \<open>hello @al\<close> is replaced in
  its parent by three new text nodes, and the caret is put after the second.
\<close>

lemma editable_splice_example:
  "snd (insertTagForContentEditable ''Alice'' (onEditable ''hello @al'' 9 noOptions)) = None
   \<and> childNodes (nodes (insertTag ''Alice'' (onEditable ''hello @al'' 9 noOptions)) 0) = [2, 3, 4]
   \<and> map (\<lambda>r. textContent (nodes (insertTag ''Alice'' (onEditable ''hello @al'' 9 noOptions)) r))
         [2, 3, 4] = [Some ''hello '', Some ''Alice '', Some []]
   \<and> selection (insertTag ''Alice'' (onEditable ''hello @al'' 9 noOptions))
       = Some [\<lparr>startContainer = 0, startOffset = 2\<rparr>]"
  by (simp add: insertTag_def insertTagForContentEditable_def onEditable_def constructor_def
      noOptions_def lastIndexOf_def startsWith_def substring_def createTextNode_def Let_def
      spliceTextNode_def insertBefore_def removeChild_def rangeAfter_def detachedElement_def
      eval_nat_numeral)

text \<open>
  A render pass with a query writes the score into the objects of the candidate set,
  which the working list shares with it.
\<close>

lemma showDropdown_scores_candidates:
  "objects (showDropdown \<lparr>top_px = 10, left_px = 20\<rparr> 16
      (holding [\<lparr>display = ''Bob'', key = ''Bob'', matchScore = None\<rparr>]
         (onTextarea (caretAt ''@b'' 2) noOptions))) 0
   = \<lparr>display = ''Bob'', key = ''Bob'', matchScore = Some 1\<rparr>"
proof -
  let ?s = "holding [\<lparr>display = ''Bob'', key = ''Bob'', matchScore = None\<rparr>]
         (onTextarea (caretAt ''@b'' 2) noOptions)"
  have s: "suggestions ?s = [0]" "middlewares ?s = []"
    "objects ?s 0 = \<lparr>display = ''Bob'', key = ''Bob'', matchScore = None\<rparr>"
    by (simp_all add: holding_def onTextarea_def constructor_def noOptions_def)
  have q: "getTriggerQuery ?s = ''b''"
    by (simp add: getTriggerQuery_def getQueryForInput_def holding_def onTextarea_def
        constructor_def noOptions_def caretAt_def lastIndexOf_def startsWith_def
        substring_def eval_nat_numeral)
  have lc: "toLowerCase ''b'' = ''b''" by code_simp
  have sc: "getMatchScore ''Bob'' ''b'' = 1" by code_simp
  have "objects (showDropdown \<lparr>top_px = 10, left_px = 20\<rparr> 16 ?s) = fst (rankedCandidates ?s)"
    by (cases "rankedCandidates ?s") (simp add: showDropdown_def hideDropdown_def Let_def)
  then show ?thesis
    unfolding rankedCandidates_eq s q lc
    by (simp add: sortAndFilterSuggestionsOn_store withScore_def s sc)
qed

end
